theory Spec2Isabelle
  imports Main "HOL-Library.Word"
begin

section \<open>Values, JSON documents and encoding/json\<close>

text \<open>
  A Go \<open>interface{}\<close> value, as far as the repository stores one in a logger context, a
  request context or a response envelope. \<open>AnyUnsupported\<close> stands for every value that
  \<open>json.Marshal\<close> rejects (a channel, a function, a NaN float).
\<close>

datatype anyval =
    AnyString string
  | AnyInt int
  | AnyBool bool
  | AnyMap "(string \<times> anyval) list"
  | AnyUnsupported

text \<open>
  The bytes \<open>json.Marshal\<close> produces are kept as the JSON document they spell. The members
  of an object are listed in the order of the association list; JSON objects are unordered.
\<close>

datatype json =
    JString string
  | JNumber int
  | JBool bool
  | JObject "(string \<times> json) list"

text \<open>
  A Go error: \<open>errors.New(msg)\<close>, or \<open>fmt.Errorf(prefix + "%w", err)\<close>, which wraps \<open>err\<close>.
\<close>

datatype error = Err string | Errorf string error

fun error_Error :: "error \<Rightarrow> string" where
  "error_Error (Err msg) = msg"
| "error_Error (Errorf prefix err) = prefix @ error_Error err"

fun errors_Is :: "error \<Rightarrow> error \<Rightarrow> bool" where
  "errors_Is (Err msg) target = (Err msg = target)"
| "errors_Is (Errorf prefix err) target = (Errorf prefix err = target \<or> errors_Is err target)"

fun marshal_any :: "anyval \<Rightarrow> error + json"
  and marshal_members :: "(string \<times> anyval) list \<Rightarrow> error + (string \<times> json) list" where
  "marshal_any (AnyString s) = Inr (JString s)"
| "marshal_any (AnyInt n) = Inr (JNumber n)"
| "marshal_any (AnyBool b) = Inr (JBool b)"
| "marshal_any (AnyMap kvs) =
     (case marshal_members kvs of Inl e \<Rightarrow> Inl e | Inr ms \<Rightarrow> Inr (JObject ms))"
| "marshal_any AnyUnsupported = Inl (Err ''json: unsupported type'')"
| "marshal_members [] = Inr []"
| "marshal_members ((k, v) # kvs) =
     (case marshal_any v of
        Inl e \<Rightarrow> Inl e
      | Inr j \<Rightarrow> (case marshal_members kvs of Inl e \<Rightarrow> Inl e | Inr ms \<Rightarrow> Inr ((k, j) # ms)))"

text \<open>Assignment \<open>m[k] = v\<close> on the contents of a Go map, kept as an association list.\<close>

fun map_assign :: "string \<Rightarrow> anyval \<Rightarrow> (string \<times> anyval) list \<Rightarrow> (string \<times> anyval) list" where
  "map_assign k v [] = [(k, v)]"
| "map_assign k v ((k', v') # kvs) =
     (if k = k' then (k, v) # kvs else (k', v') # map_assign k v kvs)"


section \<open>pkg/logger/logger.go: the context-carrying logger\<close>

type_synonym LogLevel = string

definition LevelDebug :: LogLevel where "LevelDebug = ''DEBUG''"
definition LevelInfo :: LogLevel where "LevelInfo = ''INFO''"
definition LevelWarn :: LogLevel where "LevelWarn = ''WARN''"
definition LevelError :: LogLevel where "LevelError = ''ERROR''"
definition LevelFatal :: LogLevel where "LevelFatal = ''FATAL''"

definition TraceIDKey :: string where "TraceIDKey = ''trace_id''"
definition RequestIDKey :: string where "RequestIDKey = ''request_id''"

text \<open>An \<open>io.Writer\<close> of the logger: standard output or the opened log file.\<close>

datatype Writer = Stdout | LogFile string

record LogEntry =
  Timestamp :: string
  Level :: LogLevel
  Message :: string
  Context :: "(string \<times> anyval) list"
  Service :: string

record Config =
  LogFilePath :: string
  ServiceName :: string
  EnableConsole :: bool
  EnableFile :: bool
  MinLevel :: LogLevel

record JSONLogger =
  writers :: "Writer list"
  service :: string
  minLevel :: LogLevel

text \<open>
  What the logger reads from outside the program: the clock (already formatted as RFC3339
  UTC), \<open>fmt.Sprintf\<close>, whether a \<open>Write\<close> on a writer returns an error, and the errors
  of \<open>os.MkdirAll("logs", 0755)\<close> and of \<open>os.OpenFile\<close> on a path.
\<close>

record LogEnv =
  clock :: string
  Sprintf :: "string \<Rightarrow> anyval list \<Rightarrow> string"
  write_fails :: "Writer \<Rightarrow> bool"
  MkdirAll_error :: "error option"
  OpenFile_error :: "string \<Rightarrow> error option"

text \<open>
  What the logger does to the outside: every \<open>Write\<close> call in order (the writer and the
  line handed to it), and the lines printed to standard error.
\<close>

record World =
  writes :: "(Writer \<times> json) list"
  stderr :: "string list"

datatype panic = NilMapAssignment | NilPointerDereference

datatype outcome = Returned | Exited int | Panicked panic

text \<open>A \<open>context.Context\<close> as the logger sees it: the values under its keys; \<open>None\<close> is nil.\<close>

type_synonym Ctx = "(string \<rightharpoonup> anyval) option"

definition ctx_Value :: "Ctx \<Rightarrow> string \<Rightarrow> anyval option" where
  "ctx_Value ctx k = (case ctx of None \<Rightarrow> None | Some c \<Rightarrow> c k)"

text \<open>The type assertion \<open>v.(string)\<close> with its \<open>ok\<close> flag.\<close>

fun assert_string :: "anyval option \<Rightarrow> string \<times> bool" where
  "assert_string (Some (AnyString s)) = (s, True)"
| "assert_string _ = ([], False)"

definition levels :: "(LogLevel \<times> int) list" where
  "levels = [(LevelDebug, 0), (LevelInfo, 1), (LevelWarn, 2), (LevelError, 3), (LevelFatal, 4)]"

text \<open>Indexing a Go map yields the zero value for a missing key.\<close>

definition levels_at :: "LogLevel \<Rightarrow> int" where
  "levels_at k = (case map_of levels k of None \<Rightarrow> 0 | Some n \<Rightarrow> n)"

definition shouldLog :: "'a JSONLogger_scheme \<Rightarrow> LogLevel \<Rightarrow> bool" where
  "shouldLog l level = (levels_at level \<ge> levels_at (minLevel l))"

definition DefaultConfig :: "string \<Rightarrow> Config" where
  "DefaultConfig serviceName =
     \<lparr>LogFilePath = ''logs/app.log'', ServiceName = serviceName, EnableConsole = True,
      EnableFile = True, MinLevel = LevelInfo\<rparr>"

definition Config_Validate :: "Config \<Rightarrow> error option" where
  "Config_Validate c =
     (if \<not> EnableConsole c \<and> \<not> EnableFile c then
        Some (Err ''at least one output (console or file) must be enabled'')
      else if EnableFile c \<and> LogFilePath c = [] then
        Some (Err ''log file path required when file output is enabled'')
      else None)"

text \<open>The writers \<open>NewJSONLogger\<close> collects, or the error it returns; a nil config is \<open>None\<close>.\<close>

definition open_writers :: "LogEnv \<Rightarrow> Config option \<Rightarrow> error + Writer list" where
  "open_writers E config =
     (case config of
        None \<Rightarrow> Inl (Err ''Config not found'')
      | Some c \<Rightarrow>
          (case Config_Validate c of
             Some err \<Rightarrow> Inl (Errorf ''invalid config: '' err)
           | None \<Rightarrow>
               let writers1 = (if EnableConsole c then [Stdout] else [])
               in if EnableFile c then
                    (case MkdirAll_error E of
                       Some err \<Rightarrow> Inl (Errorf ''failed to create logs directory: '' err)
                     | None \<Rightarrow>
                         (case OpenFile_error E (LogFilePath c) of
                            Some err \<Rightarrow> Inl (Errorf ''failed to open log file: '' err)
                          | None \<Rightarrow> Inr (writers1 @ [LogFile (LogFilePath c)])))
                  else Inr writers1))"

definition NewJSONLogger :: "LogEnv \<Rightarrow> Config option \<Rightarrow> error + JSONLogger" where
  "NewJSONLogger E config =
     (case open_writers E config of
        Inl e \<Rightarrow> Inl e
      | Inr ws \<Rightarrow>
          (case config of
             None \<Rightarrow> Inl (Err ''Config not found'')
           | Some c \<Rightarrow> Inr \<lparr>writers = ws, service = ServiceName c, minLevel = MinLevel c\<rparr>))"

text \<open>\<open>json.Marshal(entry)\<close> with the struct tags of \<open>LogEntry\<close>: \<open>omitempty\<close> on context and service.\<close>

definition marshal_LogEntry :: "LogEntry \<Rightarrow> error + json" where
  "marshal_LogEntry e =
     (case marshal_members (Context e) of
        Inl err \<Rightarrow> Inl err
      | Inr ms \<Rightarrow>
          Inr (JObject
            ([(''timestamp'', JString (Timestamp e)),
              (''level'', JString (Level e)),
              (''message'', JString (Message e))]
             @ (if Context e = [] then [] else [(''context'', JObject ms)])
             @ (if Service e = [] then [] else [(''service'', JString (Service e))]))))"

text \<open>The loop over \<open>l.writers\<close>: a failed write is reported and the loop goes on.\<close>

fun write_all :: "LogEnv \<Rightarrow> Writer list \<Rightarrow> json \<Rightarrow> World \<Rightarrow> World" where
  "write_all E [] jsonBytes w = w"
| "write_all E (x # xs) jsonBytes w =
     (let w1 = w\<lparr>writes := writes w @ [(x, jsonBytes)]\<rparr>;
          w2 = (if write_fails E x then w1\<lparr>stderr := stderr w1 @ [''Failed to write log'']\<rparr> else w1)
      in write_all E xs jsonBytes w2)"

definition log :: "LogEnv \<Rightarrow> JSONLogger \<Rightarrow> Ctx \<Rightarrow> LogLevel \<Rightarrow> string \<Rightarrow> anyval list \<Rightarrow> World
    \<Rightarrow> outcome \<times> World" where
  "log E l ctx level msg args w =
     (if \<not> shouldLog l level then (Returned, w)
      else
        let msg1 = (if length args > 0 then Sprintf E msg args else msg);
            ctx1 = (if ctx = None then Some Map.empty else ctx);
            contextFields = [];
            (traceID, ok) = assert_string (ctx_Value ctx1 TraceIDKey);
            contextFields = (if ok \<and> traceID \<noteq> [] then
                map_assign ''trace_id'' (AnyString traceID) contextFields else contextFields);
            (reqID, ok) = assert_string (ctx_Value ctx1 RequestIDKey);
            contextFields = (if ok \<and> reqID \<noteq> [] then
                map_assign ''request_id'' (AnyString reqID) contextFields else contextFields);
            entry = \<lparr>Timestamp = clock E, Level = level, Message = msg1,
                     Context = contextFields, Service = service l\<rparr>
        in case marshal_LogEntry entry of
             Inl err \<Rightarrow> (Returned, w\<lparr>stderr := stderr w @ [''Failed to marshal log entry'']\<rparr>)
           | Inr jsonBytes \<Rightarrow>
               let w1 = write_all E (writers l) jsonBytes w
               in if level = LevelFatal then (Exited 1, w1) else (Returned, w1))"

definition Info :: "LogEnv \<Rightarrow> JSONLogger \<Rightarrow> Ctx \<Rightarrow> string \<Rightarrow> anyval list \<Rightarrow> World \<Rightarrow> outcome \<times> World" where
  "Info E l ctx msg args w = log E l ctx LevelInfo msg args w"

definition Error :: "LogEnv \<Rightarrow> JSONLogger \<Rightarrow> Ctx \<Rightarrow> string \<Rightarrow> anyval list \<Rightarrow> World \<Rightarrow> outcome \<times> World" where
  "Error E l ctx msg args w = log E l ctx LevelError msg args w"

definition Warn :: "LogEnv \<Rightarrow> JSONLogger \<Rightarrow> Ctx \<Rightarrow> string \<Rightarrow> anyval list \<Rightarrow> World \<Rightarrow> outcome \<times> World" where
  "Warn E l ctx msg args w = log E l ctx LevelWarn msg args w"

definition Debug :: "LogEnv \<Rightarrow> JSONLogger \<Rightarrow> Ctx \<Rightarrow> string \<Rightarrow> anyval list \<Rightarrow> World \<Rightarrow> outcome \<times> World" where
  "Debug E l ctx msg args w = log E l ctx LevelDebug msg args w"

definition Fatal :: "LogEnv \<Rightarrow> JSONLogger \<Rightarrow> Ctx \<Rightarrow> string \<Rightarrow> anyval list \<Rightarrow> World \<Rightarrow> outcome \<times> World" where
  "Fatal E l ctx msg args w = log E l ctx LevelFatal msg args w"

text \<open>The \<open>Write\<close> calls a step added to the world.\<close>

definition new_writes :: "World \<Rightarrow> World \<Rightarrow> (Writer \<times> json) list" where
  "new_writes w w' = drop (length (writes w)) (writes w')"


section \<open>src/unnamed/part_006: the logger with derived loggers\<close>

text \<open>
  This variant of the package keeps a context map and a trace ID in the logger and derives
  child loggers from it. Its \<open>shouldLog\<close>, \<open>Config\<close> and level constants are those above.

  A Go map is a reference and \<open>*JSONLogger\<close> is a pointer, so both live in a store: an
  address is an index, allocation appends, and \<open>None\<close> is nil. The read-write mutex is not
  modelled: every method runs alone.
\<close>

type_synonym addr = nat

record JSONLogger_p6 = JSONLogger +
  context_map :: "addr option"
  traceID :: string

record LogEntry_p6 = LogEntry +
  TraceID :: string

record Heap =
  maps :: "(string \<times> anyval) list list"
  loggers :: "JSONLogger_p6 list"

definition logger_at :: "Heap \<Rightarrow> addr \<Rightarrow> JSONLogger_p6 option" where
  "logger_at h a = (if a < length (loggers h) then Some (loggers h ! a) else None)"

text \<open>The contents of a map value; a nil map reads as empty.\<close>

definition map_contents :: "Heap \<Rightarrow> addr option \<Rightarrow> (string \<times> anyval) list" where
  "map_contents h m =
     (case m of
        None \<Rightarrow> []
      | Some a \<Rightarrow> (if a < length (maps h) then maps h ! a else []))"

text \<open>\<open>make(map[string]interface{})\<close>\<close>

definition make_map :: "Heap \<Rightarrow> addr \<times> Heap" where
  "make_map h = (length (maps h), h\<lparr>maps := maps h @ [[]]\<rparr>)"

text \<open>\<open>&JSONLogger{...}\<close>\<close>

definition new_logger :: "JSONLogger_p6 \<Rightarrow> Heap \<Rightarrow> addr \<times> Heap" where
  "new_logger L h = (length (loggers h), h\<lparr>loggers := loggers h @ [L]\<rparr>)"

text \<open>\<open>m[k] = v\<close>: a write to a nil map panics.\<close>

definition map_put :: "addr \<Rightarrow> string \<Rightarrow> anyval \<Rightarrow> Heap \<Rightarrow> Heap" where
  "map_put a k v h = h\<lparr>maps := (maps h)[a := map_assign k v (map_contents h (Some a))]\<rparr>"

definition map_store :: "addr option \<Rightarrow> string \<Rightarrow> anyval \<Rightarrow> Heap \<Rightarrow> panic + Heap" where
  "map_store m k v h =
     (case m of
        None \<Rightarrow> Inl NilMapAssignment
      | Some a \<Rightarrow> Inr (map_put a k v h))"

text \<open>\<open>for k, v := range fields { m[k] = v }\<close>\<close>

fun store_all :: "addr option \<Rightarrow> (string \<times> anyval) list \<Rightarrow> Heap \<Rightarrow> panic + Heap" where
  "store_all m [] h = Inr h"
| "store_all m ((k, v) # kvs) h =
     (case map_store m k v h of Inl p \<Rightarrow> Inl p | Inr h1 \<Rightarrow> store_all m kvs h1)"

text \<open>The loop \<open>for k, v := range l.context { copied[k] = v }\<close> on the map just made.\<close>

fun copy_all :: "addr \<Rightarrow> (string \<times> anyval) list \<Rightarrow> Heap \<Rightarrow> Heap" where
  "copy_all copied [] h = h"
| "copy_all copied ((k, v) # kvs) h = copy_all copied kvs (map_put copied k v h)"

definition copyContext :: "JSONLogger_p6 \<Rightarrow> Heap \<Rightarrow> addr option \<times> Heap" where
  "copyContext l h =
     (if length (map_contents h (context_map l)) = 0 then (None, h)
      else
        let (copied, h1) = make_map h
        in (Some copied, copy_all copied (map_contents h (context_map l)) h1))"

definition clone :: "addr \<Rightarrow> Heap \<Rightarrow> (panic + addr) \<times> Heap" where
  "clone l h =
     (case logger_at h l of
        None \<Rightarrow> (Inl NilPointerDereference, h)
      | Some L \<Rightarrow>
          let (c, h1) = copyContext L h;
              (n, h2) = new_logger
                \<lparr>writers = writers L, service = service L, minLevel = minLevel L,
                 context_map = c, traceID = traceID L\<rparr> h1
          in (Inr n, h2))"

definition WithContext :: "addr \<Rightarrow> (string \<times> anyval) list \<Rightarrow> Heap \<Rightarrow> (panic + addr) \<times> Heap" where
  "WithContext l flds h =
     (case clone l h of
        (Inl p, h1) \<Rightarrow> (Inl p, h1)
      | (Inr newLogger, h1) \<Rightarrow>
          (case logger_at h1 newLogger of
             None \<Rightarrow> (Inl NilPointerDereference, h1)
           | Some N \<Rightarrow>
               (case store_all (context_map N) flds h1 of
                  Inl p \<Rightarrow> (Inl p, h1)
                | Inr h2 \<Rightarrow> (Inr newLogger, h2))))"

definition WithTraceID :: "addr \<Rightarrow> string \<Rightarrow> Heap \<Rightarrow> (panic + addr) \<times> Heap" where
  "WithTraceID l t h =
     (case clone l h of
        (Inl p, h1) \<Rightarrow> (Inl p, h1)
      | (Inr newLogger, h1) \<Rightarrow>
          (case logger_at h1 newLogger of
             None \<Rightarrow> (Inl NilPointerDereference, h1)
           | Some N \<Rightarrow> (Inr newLogger, h1\<lparr>loggers := (loggers h1)[newLogger := N\<lparr>traceID := t\<rparr>]\<rparr>)))"

definition WithField :: "addr \<Rightarrow> string \<Rightarrow> anyval \<Rightarrow> Heap \<Rightarrow> (panic + addr) \<times> Heap" where
  "WithField l key val h =
     (case clone l h of
        (Inl p, h1) \<Rightarrow> (Inl p, h1)
      | (Inr newLogger, h1) \<Rightarrow>
          (case logger_at h1 newLogger of
             None \<Rightarrow> (Inl NilPointerDereference, h1)
           | Some N \<Rightarrow>
               (case map_store (context_map N) key val h1 of
                  Inl p \<Rightarrow> (Inl p, h1)
                | Inr h2 \<Rightarrow> (Inr newLogger, h2))))"

text \<open>
  \<open>NewJSONLogger\<close> of this variant opens the writers as above and starts the logger with an
  empty, non-nil context map.
\<close>

definition NewJSONLogger_p6 :: "LogEnv \<Rightarrow> Config option \<Rightarrow> Heap \<Rightarrow> (error + addr) \<times> Heap" where
  "NewJSONLogger_p6 E config h =
     (case open_writers E config of
        Inl e \<Rightarrow> (Inl e, h)
      | Inr ws \<Rightarrow>
          (case config of
             None \<Rightarrow> (Inl (Err ''Config not found''), h)
           | Some c \<Rightarrow>
               let (m, h1) = make_map h;
                   (n, h2) = new_logger
                     \<lparr>writers = ws, service = ServiceName c, minLevel = MinLevel c,
                      context_map = Some m, traceID = []\<rparr> h1
               in (Inr n, h2)))"

text \<open>\<open>json.Marshal(entry)\<close> for this variant's entry: \<open>trace_id\<close> is \<open>omitempty\<close> too.\<close>

definition marshal_LogEntry_p6 :: "LogEntry_p6 \<Rightarrow> error + json" where
  "marshal_LogEntry_p6 e =
     (case marshal_members (Context e) of
        Inl err \<Rightarrow> Inl err
      | Inr ms \<Rightarrow>
          Inr (JObject
            ([(''timestamp'', JString (Timestamp e)),
              (''level'', JString (Level e)),
              (''message'', JString (Message e))]
             @ (if Context e = [] then [] else [(''context'', JObject ms)])
             @ (if TraceID e = [] then [] else [(''trace_id'', JString (TraceID e))])
             @ (if Service e = [] then [] else [(''service'', JString (Service e))]))))"

definition log_p6 :: "LogEnv \<Rightarrow> addr \<Rightarrow> LogLevel \<Rightarrow> string \<Rightarrow> anyval list \<Rightarrow> Heap \<times> World
    \<Rightarrow> outcome \<times> Heap \<times> World" where
  "log_p6 E l level msg args hw =
     (let (h, w) = hw in
      case logger_at h l of
        None \<Rightarrow> (Panicked NilPointerDereference, h, w)
      | Some L \<Rightarrow>
          if \<not> shouldLog L level then (Returned, h, w)
          else
            let msg1 = (if length args > 0 then Sprintf E msg args else msg);
                (c, h1) = copyContext L h;
                entry = \<lparr>Timestamp = clock E, Level = level, Message = msg1,
                         Context = map_contents h1 c, Service = service L,
                         TraceID = traceID L\<rparr>
            in (case marshal_LogEntry_p6 entry of
                  Inl err \<Rightarrow>
                    (Returned, h1, w\<lparr>stderr := stderr w @ [''Failed to marshal log entry'']\<rparr>)
                | Inr jsonBytes \<Rightarrow>
                    let w1 = write_all E (writers L) jsonBytes w
                    in if level = LevelFatal then (Exited 1, h1, w1) else (Returned, h1, w1)))"

definition Info_p6 :: "LogEnv \<Rightarrow> addr \<Rightarrow> string \<Rightarrow> anyval list \<Rightarrow> Heap \<times> World \<Rightarrow> outcome \<times> Heap \<times> World" where
  "Info_p6 E l msg args hw = log_p6 E l LevelInfo msg args hw"

definition Error_p6 :: "LogEnv \<Rightarrow> addr \<Rightarrow> string \<Rightarrow> anyval list \<Rightarrow> Heap \<times> World \<Rightarrow> outcome \<times> Heap \<times> World" where
  "Error_p6 E l msg args hw = log_p6 E l LevelError msg args hw"

definition Warn_p6 :: "LogEnv \<Rightarrow> addr \<Rightarrow> string \<Rightarrow> anyval list \<Rightarrow> Heap \<times> World \<Rightarrow> outcome \<times> Heap \<times> World" where
  "Warn_p6 E l msg args hw = log_p6 E l LevelWarn msg args hw"

definition Debug_p6 :: "LogEnv \<Rightarrow> addr \<Rightarrow> string \<Rightarrow> anyval list \<Rightarrow> Heap \<times> World \<Rightarrow> outcome \<times> Heap \<times> World" where
  "Debug_p6 E l msg args hw = log_p6 E l LevelDebug msg args hw"

definition Fatal_p6 :: "LogEnv \<Rightarrow> addr \<Rightarrow> string \<Rightarrow> anyval list \<Rightarrow> Heap \<times> World \<Rightarrow> outcome \<times> Heap \<times> World" where
  "Fatal_p6 E l msg args hw = log_p6 E l LevelFatal msg args hw"

text \<open>The three ways to derive a child logger.\<close>

datatype derivation =
    ByWithContext "(string \<times> anyval) list"
  | ByWithTraceID string
  | ByWithField string anyval

fun derive :: "derivation \<Rightarrow> addr \<Rightarrow> Heap \<Rightarrow> (panic + addr) \<times> Heap" where
  "derive (ByWithContext flds) l h = WithContext l flds h"
| "derive (ByWithTraceID t) l h = WithTraceID l t h"
| "derive (ByWithField k v) l h = WithField l k v h"


section \<open>Notions used to state the properties\<close>

text \<open>The contents of a map after \<open>m[k] = v\<close> for each pair of a list, in order.\<close>

fun assign_all :: "(string \<times> anyval) list \<Rightarrow> (string \<times> anyval) list \<Rightarrow> (string \<times> anyval) list" where
  "assign_all [] acc = acc"
| "assign_all ((k, v) # kvs) acc = assign_all kvs (map_assign k v acc)"

text \<open>The struct that \<open>clone\<close> builds from a logger, and the store after \<open>clone\<close>.\<close>

definition child_of :: "JSONLogger_p6 \<Rightarrow> Heap \<Rightarrow> JSONLogger_p6" where
  "child_of L h = \<lparr>writers = writers L, service = service L, minLevel = minLevel L,
          context_map = fst (copyContext L h), traceID = traceID L\<rparr>"

definition cloned :: "JSONLogger_p6 \<Rightarrow> Heap \<Rightarrow> Heap" where
  "cloned L h = (snd (copyContext L h))\<lparr>loggers := loggers h @ [child_of L h]\<rparr>"

text \<open>A map reference is nil or points into the store.\<close>

definition allocated :: "Heap \<Rightarrow> addr option \<Rightarrow> bool" where
  "allocated h m = (case m of None \<Rightarrow> True | Some a \<Rightarrow> a < length (maps h))"

text \<open>
  The frame of a step: every logger and every map that the store \<open>h\<close> held is still there,
  at the same address and with the same contents, in \<open>h'\<close>; \<open>h'\<close> may hold more.
\<close>

definition extends :: "Heap \<Rightarrow> Heap \<Rightarrow> bool" where
  "extends h h' \<longleftrightarrow>
     take (length (loggers h)) (loggers h') = loggers h \<and>
     take (length (maps h)) (maps h') = maps h"

text \<open>What a derivation adds to the copied context, and the trace ID it leaves.\<close>

fun derived_context :: "derivation \<Rightarrow> (string \<times> anyval) list \<Rightarrow> (string \<times> anyval) list" where
  "derived_context (ByWithContext flds) base = assign_all flds base"
| "derived_context (ByWithTraceID t) base = base"
| "derived_context (ByWithField k v) base = map_assign k v base"

fun derived_traceID :: "derivation \<Rightarrow> string \<Rightarrow> string" where
  "derived_traceID (ByWithTraceID t) old = t"
| "derived_traceID _ old = old"


text \<open>The entry that \<open>log\<close> of part_006 builds for a logger whose context holds \<open>contents\<close>.\<close>

definition entry_p6 :: "LogEnv \<Rightarrow> JSONLogger_p6 \<Rightarrow> LogLevel \<Rightarrow> string \<Rightarrow> anyval list
    \<Rightarrow> (string \<times> anyval) list \<Rightarrow> LogEntry_p6" where
  "entry_p6 E L level msg args contents =
     \<lparr>Timestamp = clock E, Level = level,
      Message = (if length args > 0 then Sprintf E msg args else msg),
      Context = assign_all contents [], Service = service L, TraceID = traceID L\<rparr>"

text \<open>A concrete environment, a logger that carries one context field, and its store.\<close>

definition demo_env :: LogEnv where
  "demo_env = \<lparr>clock = ''2024-01-01T10:00:00Z'', Sprintf = (\<lambda>msg args. msg),
     write_fails = (\<lambda>x. False), MkdirAll_error = None, OpenFile_error = (\<lambda>path. None)\<rparr>"

definition demo_logger :: JSONLogger_p6 where
  "demo_logger = \<lparr>writers = [Stdout], service = ''api'', minLevel = LevelInfo,
     context_map = Some 0, traceID = []\<rparr>"

definition demo_heap :: Heap where
  "demo_heap = \<lparr>maps = [[(''user_id'', AnyString ''12345'')]], loggers = [demo_logger]\<rparr>"

definition empty_heap :: Heap where
  "empty_heap = \<lparr>maps = [], loggers = []\<rparr>"


text \<open>
  The store after \<open>NewJSONLogger\<close> of part_006 with the default configuration, and the
  logger it holds.
\<close>

definition fresh_heap :: Heap where
  "fresh_heap = snd (NewJSONLogger_p6 demo_env (Some (DefaultConfig ''api'')) empty_heap)"

definition fresh_logger :: JSONLogger_p6 where
  "fresh_logger = \<lparr>writers = [Stdout, LogFile ''logs/app.log''], service = ''api'',
     minLevel = LevelInfo, context_map = Some 0, traceID = []\<rparr>"

definition empty_world :: World where
  "empty_world = \<lparr>writes = [], stderr = []\<rparr>"


section \<open>net/http: requests and response writers\<close>

text \<open>
  A request as the handlers read it: the method, the path and the parsed query pairs in
  their order in the URL.
\<close>

record Request =
  Method :: string
  Path :: string
  Query :: "(string \<times> string) list"

text \<open>\<open>url.Values.Get\<close>: the first value of the key, or the empty string.\<close>

definition Query_Get :: "(string \<times> string) list \<Rightarrow> string \<Rightarrow> string" where
  "Query_Get q key = (case map_of q key of None \<Rightarrow> [] | Some v \<Rightarrow> v)"

datatype body_part = JSONLine json | TextLine string

text \<open>A response writer: the header map, the status once written, and the body written.\<close>

record ResponseWriter =
  Header :: "(string \<times> string) list"
  Status :: "nat option"
  Body :: "body_part list"

definition new_ResponseWriter :: ResponseWriter where
  "new_ResponseWriter = \<lparr>Header = [], Status = None, Body = []\<rparr>"

definition Header_Set :: "string \<Rightarrow> string \<Rightarrow> ResponseWriter \<Rightarrow> ResponseWriter" where
  "Header_Set key val w = w\<lparr>Header := (key, val) # filter (\<lambda>kv. fst kv \<noteq> key) (Header w)\<rparr>"

definition Header_Del :: "string \<Rightarrow> ResponseWriter \<Rightarrow> ResponseWriter" where
  "Header_Del key w = w\<lparr>Header := filter (\<lambda>kv. fst kv \<noteq> key) (Header w)\<rparr>"

text \<open>\<open>WriteHeader\<close>: the first status written stays.\<close>

definition WriteHeader :: "nat \<Rightarrow> ResponseWriter \<Rightarrow> ResponseWriter" where
  "WriteHeader statusCode w = (case Status w of None \<Rightarrow> w\<lparr>Status := Some statusCode\<rparr> | Some c \<Rightarrow> w)"

text \<open>\<open>Write\<close>: writes status 200 first when no status was written.\<close>

definition Write :: "body_part \<Rightarrow> ResponseWriter \<Rightarrow> ResponseWriter" where
  "Write b w = (let w1 = WriteHeader 200 w in w1\<lparr>Body := Body w1 @ [b]\<rparr>)"

text \<open>\<open>http.Error\<close>\<close>

definition http_Error :: "ResponseWriter \<Rightarrow> string \<Rightarrow> nat \<Rightarrow> ResponseWriter" where
  "http_Error w msg code =
     Write (TextLine msg)
       (WriteHeader code
         (Header_Set ''X-Content-Type-Options'' ''nosniff''
           (Header_Set ''Content-Type'' ''text/plain; charset=utf-8''
             (Header_Del ''Content-Length'' w))))"

type_synonym HandlerFunc = "Request \<Rightarrow> ResponseWriter \<Rightarrow> ResponseWriter"


section \<open>pkg/response/response.go\<close>

definition StatusOK :: nat where "StatusOK = 200"
definition StatusCreated :: nat where "StatusCreated = 201"
definition StatusUnprocessableEntity :: nat where "StatusUnprocessableEntity = 422"
definition StatusInternalServerError :: nat where "StatusInternalServerError = 500"
definition StatusNotFound :: nat where "StatusNotFound = 404"
definition StatusMethodNotAllowed :: nat where "StatusMethodNotAllowed = 405"

text \<open>
  The envelope. \<open>Data\<close> is an \<open>interface{}\<close>: \<open>None\<close> is the nil interface. The fields
  \<open>Message\<close> and \<open>Error\<close> carry the suffix \<open>_resp\<close>.
\<close>

record Response =
  Success :: bool
  Message_resp :: string
  Data :: "anyval option"
  Error_resp :: string

text \<open>
  \<open>json.NewEncoder(w).Encode(response)\<close> with the struct tags: \<open>data\<close> is left out for a
  nil interface, \<open>error\<close> for an empty string.
\<close>

definition marshal_Response :: "Response \<Rightarrow> error + json" where
  "marshal_Response r =
     (case (case Data r of None \<Rightarrow> Inr [] | Some d \<Rightarrow>
              (case marshal_any d of Inl e \<Rightarrow> Inl e | Inr j \<Rightarrow> Inr [(''data'', j)])) of
        Inl e \<Rightarrow> Inl e
      | Inr dataMember \<Rightarrow>
          Inr (JObject
            ([(''success'', JBool (Success r)), (''message'', JString (Message_resp r))]
             @ dataMember
             @ (if Error_resp r = [] then [] else [(''error'', JString (Error_resp r))]))))"

definition SendJSON :: "ResponseWriter \<Rightarrow> nat \<Rightarrow> Response \<Rightarrow> ResponseWriter" where
  "SendJSON w statusCode response =
     (let w1 = Header_Set ''Content-Type'' ''application/json'' w;
          w2 = WriteHeader statusCode w1
      in case marshal_Response response of
           Inl err \<Rightarrow> http_Error w2 ''Failed to encode response'' StatusInternalServerError
         | Inr j \<Rightarrow> Write (JSONLine j) w2)"

definition SendSuccess :: "ResponseWriter \<Rightarrow> string \<Rightarrow> anyval option \<Rightarrow> ResponseWriter" where
  "SendSuccess w message data =
     SendJSON w StatusOK
       \<lparr>Success = True, Message_resp = message, Data = data, Error_resp = []\<rparr>"

definition SendCreated :: "ResponseWriter \<Rightarrow> string \<Rightarrow> anyval option \<Rightarrow> ResponseWriter" where
  "SendCreated w message data =
     SendJSON w StatusCreated
       \<lparr>Success = True, Message_resp = message, Data = data, Error_resp = []\<rparr>"

definition SendUnprocessableEntity :: "ResponseWriter \<Rightarrow> string \<Rightarrow> anyval option \<Rightarrow> ResponseWriter" where
  "SendUnprocessableEntity w message validationErrors =
     (let message1 = (if message = [] then ''Unprocessable Entity'' else message)
      in SendJSON w StatusUnprocessableEntity
           \<lparr>Success = False, Message_resp = message1, Data = validationErrors,
            Error_resp = ''Validation failed''\<rparr>)"


section \<open>The auth handlers and router (src/unnamed/part_003) and the chi router\<close>

definition loginHandler :: HandlerFunc where
  "loginHandler r w =
     (let userData = AnyMap [(''user_id'', AnyInt 123), (''email'', AnyString ''user@example.com''),
                             (''token'', AnyString ''jwt-token-here'')]
      in SendSuccess w ''Login successful'' (Some userData))"

definition registerHandler :: HandlerFunc where
  "registerHandler r w =
     (if Query_Get (Query r) ''error'' = ''validation'' then
        let validationErrors = AnyMap
              [(''email'', AnyString ''Email is required''),
               (''password'', AnyString ''Password must be at least 8 characters'')]
        in SendUnprocessableEntity w ''Validation failed'' (Some validationErrors)
      else
        let userData = AnyMap [(''user_id'', AnyInt 124), (''email'', AnyString ''newuser@example.com''),
                               (''message'', AnyString ''Please verify your email'')]
        in SendCreated w ''User registered successfully'' (Some userData))"

text \<open>
  The chi router, for what the repository uses of it: routes with a method and a static
  pattern, and sub-routers mounted under a static prefix. A request goes to the first route
  whose method and pattern are the request's; else to the first sub-router whose prefix
  begins the path (at a segment boundary), with the prefix taken off; else it gets 405 when
  a route has the pattern under another method, and 404 otherwise.
\<close>

datatype Mux = Mux (routes: "(string \<times> string \<times> HandlerFunc) list") (mounts: "(string \<times> Mux) list")

definition NewRouter :: Mux where
  "NewRouter = Mux [] []"

definition Method_func :: "string \<Rightarrow> string \<Rightarrow> HandlerFunc \<Rightarrow> Mux \<Rightarrow> Mux" where
  "Method_func method pattern h m = Mux (routes m @ [(method, pattern, h)]) (mounts m)"

definition Get :: "string \<Rightarrow> HandlerFunc \<Rightarrow> Mux \<Rightarrow> Mux" where
  "Get pattern h m = Method_func ''GET'' pattern h m"

definition Post :: "string \<Rightarrow> HandlerFunc \<Rightarrow> Mux \<Rightarrow> Mux" where
  "Post pattern h m = Method_func ''POST'' pattern h m"

definition Mount :: "string \<Rightarrow> Mux \<Rightarrow> Mux \<Rightarrow> Mux" where
  "Mount pattern sub m = Mux (routes m) (mounts m @ [(pattern, sub)])"

text \<open>The rest of a path under a mount prefix, if the prefix ends at a segment boundary.\<close>

definition under_prefix :: "string \<Rightarrow> string \<Rightarrow> string option" where
  "under_prefix prefix path =
     (if take (length prefix) path = prefix then
        (let rest = drop (length prefix) path
         in if rest = [] then Some ''/''
            else if hd rest = CHR ''/'' then Some rest
            else None)
      else None)"

fun find_route :: "(string \<times> string \<times> HandlerFunc) list \<Rightarrow> string \<Rightarrow> string \<Rightarrow> HandlerFunc option" where
  "find_route [] method path = None"
| "find_route ((m, p, h) # rs) method path =
     (if m = method \<and> p = path then Some h else find_route rs method path)"

fun ServeHTTP :: "Mux \<Rightarrow> Request \<Rightarrow> ResponseWriter \<Rightarrow> ResponseWriter"
  and serve_mounts :: "(string \<times> Mux) list \<Rightarrow> Request \<Rightarrow> ResponseWriter \<Rightarrow> ResponseWriter option" where
  "ServeHTTP (Mux rs ms) r w =
     (case find_route rs (Method r) (Path r) of
        Some h \<Rightarrow> h r w
      | None \<Rightarrow>
          (case serve_mounts ms r w of
             Some w1 \<Rightarrow> w1
           | None \<Rightarrow>
               if Path r \<in> set (map (\<lambda>x. fst (snd x)) rs)
               then http_Error w [] StatusMethodNotAllowed
               else http_Error w ''404 page not found'' StatusNotFound))"
| "serve_mounts [] r w = None"
| "serve_mounts ((prefix, sub) # ms) r w =
     (case under_prefix prefix (Path r) of
        Some rest \<Rightarrow> Some (ServeHTTP sub (r\<lparr>Path := rest\<rparr>) w)
      | None \<Rightarrow> serve_mounts ms r w)"

text \<open>\<open>Router()\<close> of the auth package.\<close>

definition Router :: Mux where
  "Router = Post ''/register'' registerHandler (Post ''/login'' loginHandler NewRouter)"

text \<open>\<open>app()\<close> of cmd/server/main.go: the ping route and the auth router under \<open>/auth\<close>.\<close>

definition app :: Mux where
  "app = Mount ''/auth'' Router
           (Get ''/ping'' (\<lambda>r w. Write (TextLine ''pong'') w) NewRouter)"

text \<open>The member of a JSON object under a key.\<close>

fun json_member :: "json \<Rightarrow> string \<Rightarrow> json option" where
  "json_member (JObject ms) key = map_of ms key"
| "json_member _ key = None"


section \<open>pkg/env/env.go and the settings loader (src/unnamed/part_004)\<close>

text \<open>A \<open>time.Duration\<close>: an \<open>int64\<close> count of nanoseconds; its arithmetic wraps around.\<close>

type_synonym Duration = "64 word"

definition Millisecond :: Duration where
  "Millisecond = 1000000"

text \<open>
  \<open>strconv.Atoi\<close>, where \<open>int\<close> has 64 bits: an optional sign, then one or more decimal
  digits; a syntax error otherwise, and a range error when the number does not fit.
\<close>

definition is_digit :: "char \<Rightarrow> bool" where
  "is_digit c = (c \<in> set ''0123456789'')"

definition digit_value :: "char \<Rightarrow> int" where
  "digit_value c = int (of_char c) - 48"

fun decimal :: "string \<Rightarrow> int \<Rightarrow> int" where
  "decimal [] n = n"
| "decimal (c # cs) n = decimal cs (10 * n + digit_value c)"

fun unsigned_part :: "string \<Rightarrow> string" where
  "unsigned_part (c # cs) = (if c = CHR ''-'' \<or> c = CHR ''+'' then cs else c # cs)"
| "unsigned_part [] = []"

definition numeric :: "string \<Rightarrow> bool" where
  "numeric s = (unsigned_part s \<noteq> [] \<and> list_all is_digit (unsigned_part s))"

definition numeric_value :: "string \<Rightarrow> int" where
  "numeric_value s =
     (if take 1 s = ''-'' then - decimal (unsigned_part s) 0 else decimal (unsigned_part s) 0)"

definition Atoi :: "string \<Rightarrow> error + int" where
  "Atoi s =
     (if \<not> numeric s then Inl (Err ''invalid syntax'')
      else if numeric_value s < - (2 ^ 63) \<or> 2 ^ 63 - 1 < numeric_value s
      then Inl (Err ''value out of range'')
      else Inr (numeric_value s))"

text \<open>A \<open>*time.Duration\<close> result is \<open>None\<close> for nil.\<close>

definition parseMsDuration :: "string \<Rightarrow> error + Duration option" where
  "parseMsDuration val =
     (if val = [] then Inr None
      else case Atoi val of
             Inl err \<Rightarrow> Inl err
           | Inr ms \<Rightarrow> Inr (Some (word_of_int ms * Millisecond)))"

text \<open>The process environment: \<open>os.Getenv\<close> gives the empty string for an unset variable.\<close>

type_synonym environ = "string \<rightharpoonup> string"

definition Getenv :: "environ \<Rightarrow> string \<Rightarrow> string" where
  "Getenv e key = (case e key of None \<Rightarrow> [] | Some v \<Rightarrow> v)"

definition GetEnvOrDefault :: "environ \<Rightarrow> string \<Rightarrow> string \<Rightarrow> string" where
  "GetEnvOrDefault e key defaultValue =
     (let val = Getenv e key in if val \<noteq> [] then val else defaultValue)"

text \<open>
  \<open>godotenv.Load()\<close>: an error when the file \<open>.env\<close> is missing or malformed; otherwise every
  variable of the file that the environment does not have is set (for a repeated key the
  last value), and no variable the environment has is changed.
\<close>

datatype dotfile = NoDotfile | BadDotfile | Dotfile "(string \<times> string) list"

fun LoadENV :: "dotfile \<Rightarrow> environ \<Rightarrow> error option \<times> environ" where
  "LoadENV NoDotfile e = (Some (Err ''open .env: no such file or directory''), e)"
| "LoadENV BadDotfile e = (Some (Err ''unexpected character in variable name''), e)"
| "LoadENV (Dotfile kvs) e =
     (None, (\<lambda>k. case e k of Some v \<Rightarrow> Some v | None \<Rightarrow> map_of (rev kvs) k))"

record Variables =
  env :: string
  dbURI :: string
  db :: string
  port :: string
  moduleName :: string
  readTimeoutMs :: "Duration option"
  writeTimeoutMs :: "Duration option"
  shutdownTimeoutMs :: "Duration option"
  idleTimeoutMs :: "Duration option"
  readHeaderTimeoutMs :: "Duration option"

definition LoadENVVariables :: "dotfile \<Rightarrow> environ \<Rightarrow> error + Variables" where
  "LoadENVVariables f e0 =
     (case LoadENV f e0 of
        (Some err, e) \<Rightarrow> Inl err
      | (None, e) \<Rightarrow>
     (case parseMsDuration (GetEnvOrDefault e ''READ_TIMEOUT_MS'' []) of
        Inl err \<Rightarrow> Inl err
      | Inr readTimeout \<Rightarrow>
     (case parseMsDuration (GetEnvOrDefault e ''WRITE_TIMEOUT_MS'' []) of
        Inl err \<Rightarrow> Inl err
      | Inr writeTimeout \<Rightarrow>
     (case parseMsDuration (GetEnvOrDefault e ''SHUTDOWN_TIMEOUT_MS'' []) of
        Inl err \<Rightarrow> Inl err
      | Inr shutdownTimeout \<Rightarrow>
     (case parseMsDuration (GetEnvOrDefault e ''IDLE_TIMEOUT_MS'' []) of
        Inl err \<Rightarrow> Inl err
      | Inr idleTimeout \<Rightarrow>
     (case parseMsDuration (GetEnvOrDefault e ''READ_HEADER_TIMEOUT_MS'' []) of
        Inl err \<Rightarrow> Inl err
      | Inr readHeaderTimeout \<Rightarrow>
          Inr \<lparr>env = GetEnvOrDefault e ''ENV'' ''development'',
               dbURI = GetEnvOrDefault e ''DB_URI'' [],
               db = GetEnvOrDefault e ''DB'' [],
               port = GetEnvOrDefault e ''PORT'' '':8080'',
               moduleName = GetEnvOrDefault e ''MODULE_NAME'' [],
               readTimeoutMs = readTimeout,
               writeTimeoutMs = writeTimeout,
               shutdownTimeoutMs = shutdownTimeout,
               idleTimeoutMs = idleTimeout,
               readHeaderTimeoutMs = readHeaderTimeout\<rparr>))))))"

text \<open>The accessors; \<open>Port()\<close> carries the suffix \<open>_var\<close>.\<close>

definition Env :: "Variables \<Rightarrow> string" where "Env v = env v"
definition DB_URI :: "Variables \<Rightarrow> string" where "DB_URI v = dbURI v"
definition DB :: "Variables \<Rightarrow> string" where "DB v = db v"
definition Port_var :: "Variables \<Rightarrow> string" where "Port_var v = port v"
definition MODULE_NAME :: "Variables \<Rightarrow> string" where "MODULE_NAME v = moduleName v"
definition READ_TIMEOUT_MS :: "Variables \<Rightarrow> Duration option" where
  "READ_TIMEOUT_MS v = readTimeoutMs v"
definition WRITE_TIMEOUT_MS :: "Variables \<Rightarrow> Duration option" where
  "WRITE_TIMEOUT_MS v = writeTimeoutMs v"
definition SHUTDOWN_TIMEOUT_MS :: "Variables \<Rightarrow> Duration option" where
  "SHUTDOWN_TIMEOUT_MS v = shutdownTimeoutMs v"
definition IDLE_TIMEOUT_MS :: "Variables \<Rightarrow> Duration option" where
  "IDLE_TIMEOUT_MS v = idleTimeoutMs v"
definition READ_HEADER_TIMEOUT_MS :: "Variables \<Rightarrow> Duration option" where
  "READ_HEADER_TIMEOUT_MS v = readHeaderTimeoutMs v"


text \<open>The five duration variables, and the accessor that belongs to each.\<close>

definition timeout_keys :: "string list" where
  "timeout_keys = [''READ_TIMEOUT_MS'', ''WRITE_TIMEOUT_MS'', ''SHUTDOWN_TIMEOUT_MS'',
     ''IDLE_TIMEOUT_MS'', ''READ_HEADER_TIMEOUT_MS'']"

definition timeout_accessor :: "string \<Rightarrow> Variables \<Rightarrow> Duration option" where
  "timeout_accessor key v =
     (if key = ''READ_TIMEOUT_MS'' then READ_TIMEOUT_MS v
      else if key = ''WRITE_TIMEOUT_MS'' then WRITE_TIMEOUT_MS v
      else if key = ''SHUTDOWN_TIMEOUT_MS'' then SHUTDOWN_TIMEOUT_MS v
      else if key = ''IDLE_TIMEOUT_MS'' then IDLE_TIMEOUT_MS v
      else READ_HEADER_TIMEOUT_MS v)"

text \<open>The five string variables with their documented defaults, and their accessors.\<close>

definition string_keys :: "(string \<times> string) list" where
  "string_keys = [(''ENV'', ''development''), (''DB_URI'', []), (''DB'', []),
     (''PORT'', '':8080''), (''MODULE_NAME'', [])]"

definition string_accessor :: "string \<Rightarrow> Variables \<Rightarrow> string" where
  "string_accessor key v =
     (if key = ''ENV'' then Env v
      else if key = ''DB_URI'' then DB_URI v
      else if key = ''DB'' then DB v
      else if key = ''PORT'' then Port_var v
      else MODULE_NAME v)"

text \<open>A value that \<open>parseMsDuration\<close> accepts: empty, or a number that fits an \<open>int\<close>.\<close>

definition parses :: "string \<Rightarrow> bool" where
  "parses val = (val = [] \<or>
     (numeric val \<and> - (2 ^ 63) \<le> numeric_value val \<and> numeric_value val \<le> 2 ^ 63 - 1))"

text \<open>An environment in which every recognized variable is set to a non-empty value.\<close>

definition seeded_env :: environ where
  "seeded_env = map_of
     [(''ENV'', ''production''), (''DB_URI'', ''mongodb://db:27017''), (''DB'', ''app''),
      (''PORT'', '':9090''), (''MODULE_NAME'', ''api''),
      (''READ_TIMEOUT_MS'', ''9223372036855''), (''WRITE_TIMEOUT_MS'', ''15000''),
      (''SHUTDOWN_TIMEOUT_MS'', ''10000''), (''IDLE_TIMEOUT_MS'', ''60000''),
      (''READ_HEADER_TIMEOUT_MS'', ''10000'')]"

definition seeded_vars :: Variables where
  "seeded_vars =
     \<lparr>env = ''production'', dbURI = ''mongodb://db:27017'', db = ''app'', port = '':9090'',
      moduleName = ''api'', readTimeoutMs = Some (- 9223372036854551616),
      writeTimeoutMs = Some 15000000000, shutdownTimeoutMs = Some 10000000000,
      idleTimeoutMs = Some 60000000000, readHeaderTimeoutMs = Some 10000000000\<rparr>"


section \<open>Level filtering\<close>

lemma writes_write_all:
  "writes (write_all E xs b w) = writes w @ map (\<lambda>x. (x, b)) xs"
  by (induction xs arbitrary: w) (simp_all add: Let_def)

lemma levels_at_values:
  "levels_at LevelDebug = 0" "levels_at LevelInfo = 1" "levels_at LevelWarn = 2"
  "levels_at LevelError = 3" "levels_at LevelFatal = 4"
  by (simp_all add: levels_at_def levels_def LevelDebug_def LevelInfo_def LevelWarn_def
      LevelError_def LevelFatal_def)

lemma log_marshal_ok:
  "\<exists>line. marshal_LogEntry \<lparr>Timestamp = t, Level = lv, Message = m,
      Context = (if c2 then map_assign ''request_id'' (AnyString b)
         (if c1 then map_assign ''trace_id'' (AnyString a) [] else [])
         else (if c1 then map_assign ''trace_id'' (AnyString a) [] else [])),
      Service = s\<rparr> = Inr line"
  by (cases c1; cases c2) (simp_all add: marshal_LogEntry_def)

lemma log_result:
  "\<exists>line. log E l ctx S msg args w =
     (if levels_at S < levels_at (minLevel l) then (Returned, w)
      else (if S = LevelFatal then Exited 1 else Returned, write_all E (writers l) line w))"
proof -
  let ?ctx1 = "if ctx = None then Some Map.empty else ctx"
  obtain t ok1 where t: "assert_string (ctx_Value ?ctx1 TraceIDKey) = (t, ok1)"
    by (cases "assert_string (ctx_Value ?ctx1 TraceIDKey)")
  obtain r ok2 where r: "assert_string (ctx_Value ?ctx1 RequestIDKey) = (r, ok2)"
    by (cases "assert_string (ctx_Value ?ctx1 RequestIDKey)")
  let ?msg1 = "if length args > 0 then Sprintf E msg args else msg"
  obtain line where line: "marshal_LogEntry \<lparr>Timestamp = clock E, Level = S, Message = ?msg1,
      Context = (if ok2 \<and> r \<noteq> [] then map_assign ''request_id'' (AnyString r)
         (if ok1 \<and> t \<noteq> [] then map_assign ''trace_id'' (AnyString t) [] else [])
         else (if ok1 \<and> t \<noteq> [] then map_assign ''trace_id'' (AnyString t) [] else [])),
      Service = service l\<rparr> = Inr line"
    using log_marshal_ok by blast
  have "log E l ctx S msg args w =
     (if levels_at S < levels_at (minLevel l) then (Returned, w)
      else (if S = LevelFatal then Exited 1 else Returned, write_all E (writers l) line w))"
    unfolding log_def shouldLog_def Let_def t r prod.case line
    by simp
  then show ?thesis ..
qed

lemma new_writes_write_all:
  "new_writes w (write_all E xs b w) = map (\<lambda>x. (x, b)) xs"
  by (simp add: new_writes_def writes_write_all)

lemma new_writes_same: "new_writes w w = []"
  by (simp add: new_writes_def)

text \<open>
  C1. The ranks are ordered DEBUG < INFO < WARN < ERROR < FATAL. A call of \<open>log\<close> at
  severity \<open>S\<close> on a logger whose minimum level is \<open>minLevel l\<close> adds no \<open>Write\<close> call when
  the rank of \<open>S\<close> is below the rank of the minimum level, and otherwise adds exactly one
  \<open>Write\<close> call per configured writer, in the order of \<open>l.writers\<close>, each with the same line;
  the earlier writes are kept. This holds for every context, message and argument list,
  and whether or not a write fails.
\<close>

theorem log_level_filtering:
  "levels_at LevelDebug < levels_at LevelInfo \<and> levels_at LevelInfo < levels_at LevelWarn \<and>
   levels_at LevelWarn < levels_at LevelError \<and> levels_at LevelError < levels_at LevelFatal \<and>
   writes (snd (log E l ctx S msg args w)) = writes w @ new_writes w (snd (log E l ctx S msg args w)) \<and>
   (\<exists>line. new_writes w (snd (log E l ctx S msg args w)) =
      (if levels_at S < levels_at (minLevel l) then [] else map (\<lambda>x. (x, line)) (writers l)))"
proof -
  have order: "levels_at LevelDebug < levels_at LevelInfo \<and> levels_at LevelInfo < levels_at LevelWarn \<and>
      levels_at LevelWarn < levels_at LevelError \<and> levels_at LevelError < levels_at LevelFatal"
    by (simp add: levels_at_values)
  obtain line where res: "log E l ctx S msg args w =
     (if levels_at S < levels_at (minLevel l) then (Returned, w)
      else (if S = LevelFatal then Exited 1 else Returned, write_all E (writers l) line w))"
    using log_result by blast
  have kept: "writes (snd (log E l ctx S msg args w)) =
      writes w @ new_writes w (snd (log E l ctx S msg args w))"
    unfolding res by (simp add: new_writes_write_all new_writes_same writes_write_all)
  have added: "new_writes w (snd (log E l ctx S msg args w)) =
      (if levels_at S < levels_at (minLevel l) then [] else map (\<lambda>x. (x, line)) (writers l))"
    unfolding res by (simp add: new_writes_write_all new_writes_same)
  from order kept added show ?thesis by blast
qed

section \<open>Derived loggers: the store\<close>

lemma map_assign_not_Nil [simp]: "map_assign k v kvs \<noteq> []"
  by (cases kvs) (auto split: if_splits)

lemma assign_all_not_Nil: "acc \<noteq> [] \<Longrightarrow> assign_all kvs acc \<noteq> []"
proof (induction kvs arbitrary: acc)
  case Nil
  then show ?case by simp
next
  case (Cons kv kvs)
  obtain k v where kv: "kv = (k, v)" by (cases kv)
  have "assign_all kvs (map_assign k v acc) \<noteq> []"
    by (rule Cons.IH) simp
  with kv show ?case by simp
qed

lemma assign_all_Nil_iff: "assign_all kvs [] = [] \<longleftrightarrow> kvs = []"
proof (cases kvs)
  case Nil
  then show ?thesis by simp
next
  case (Cons kv rest)
  obtain k v where kv: "kv = (k, v)" by (cases kv)
  have "assign_all rest (map_assign k v []) \<noteq> []"
    by (rule assign_all_not_Nil) simp
  with Cons kv show ?thesis by simp
qed

lemma loggers_map_put [simp]: "loggers (map_put a k v h) = loggers h"
  by (simp add: map_put_def)

lemma length_maps_map_put [simp]: "length (maps (map_put a k v h)) = length (maps h)"
  by (simp add: map_put_def)

lemma take_maps_map_put: "n \<le> a \<Longrightarrow> take n (maps (map_put a k v h)) = take n (maps h)"
  by (simp add: map_put_def)

lemma contents_map_put_same:
  "a < length (maps h) \<Longrightarrow>
   map_contents (map_put a k v h) (Some a) = map_assign k v (map_contents h (Some a))"
  by (simp add: map_put_def map_contents_def)

lemma loggers_copy_all [simp]: "loggers (copy_all a kvs h) = loggers h"
  by (induction kvs arbitrary: h) auto

lemma length_maps_copy_all [simp]: "length (maps (copy_all a kvs h)) = length (maps h)"
  by (induction kvs arbitrary: h) auto

lemma take_maps_copy_all: "n \<le> a \<Longrightarrow> take n (maps (copy_all a kvs h)) = take n (maps h)"
  by (induction kvs arbitrary: h) (auto simp: take_maps_map_put)

lemma contents_copy_all:
  "a < length (maps h) \<Longrightarrow>
   map_contents (copy_all a kvs h) (Some a) = assign_all kvs (map_contents h (Some a))"
  by (induction kvs arbitrary: h) (auto simp: contents_map_put_same)

lemma copyContext_loggers [simp]: "loggers (snd (copyContext L h)) = loggers h"
  by (simp add: copyContext_def make_map_def Let_def)

lemma copyContext_take:
  "take (length (maps h)) (maps (snd (copyContext L h))) = maps h"
  by (simp add: copyContext_def make_map_def Let_def take_maps_copy_all)

lemma copyContext_fst:
  "fst (copyContext L h) =
     (if map_contents h (context_map L) = [] then None else Some (length (maps h)))"
  by (simp add: copyContext_def make_map_def Let_def)

lemma copyContext_length:
  "length (maps (snd (copyContext L h))) =
     (if map_contents h (context_map L) = [] then length (maps h) else Suc (length (maps h)))"
  by (simp add: copyContext_def make_map_def Let_def)

lemma copyContext_contents:
  "map_contents (snd (copyContext L h)) (fst (copyContext L h)) =
     assign_all (map_contents h (context_map L)) []"
proof (cases "map_contents h (context_map L) = []")
  case True
  then show ?thesis by (simp add: copyContext_def map_contents_def)
next
  case False
  have "map_contents (copy_all (length (maps h)) (map_contents h (context_map L))
          (h\<lparr>maps := maps h @ [[]]\<rparr>)) (Some (length (maps h))) =
        assign_all (map_contents h (context_map L))
          (map_contents (h\<lparr>maps := maps h @ [[]]\<rparr>) (Some (length (maps h))))"
    by (rule contents_copy_all) simp
  moreover have "map_contents (h\<lparr>maps := maps h @ [[]]\<rparr>) (Some (length (maps h))) = []"
    by (simp add: map_contents_def)
  ultimately show ?thesis using False
    by (simp add: copyContext_def make_map_def Let_def)
qed

lemma clone_result:
  assumes at: "logger_at h l = Some L"
  shows "clone l h = (Inr (length (loggers h)),
     (snd (copyContext L h))\<lparr>loggers := loggers h @
        [\<lparr>writers = writers L, service = service L, minLevel = minLevel L,
          context_map = fst (copyContext L h), traceID = traceID L\<rparr>]\<rparr>)"
proof -
  obtain c h1 where ch: "copyContext L h = (c, h1)" by (cases "copyContext L h")
  then have "loggers h1 = loggers h" using copyContext_loggers [of L h] by simp
  with ch at show ?thesis
    by (simp add: clone_def new_logger_def Let_def)
qed

lemma clone_nil: "logger_at h l = None \<Longrightarrow> clone l h = (Inl NilPointerDereference, h)"
  by (simp add: clone_def)

lemma clone_eq:
  "logger_at h l = Some L \<Longrightarrow> clone l h = (Inr (length (loggers h)), cloned L h)"
  by (simp add: clone_result cloned_def child_of_def)

lemma cloned_loggers [simp]: "loggers (cloned L h) = loggers h @ [child_of L h]"
  by (simp add: cloned_def)

lemma cloned_maps [simp]: "maps (cloned L h) = maps (snd (copyContext L h))"
  by (simp add: cloned_def)

lemma cloned_child [simp]: "logger_at (cloned L h) (length (loggers h)) = Some (child_of L h)"
  by (simp add: logger_at_def)

lemma map_contents_cong: "maps h1 = maps h2 \<Longrightarrow> map_contents h1 m = map_contents h2 m"
  by (cases m) (simp_all add: map_contents_def)

lemma take_store_all:
  "store_all m kvs h = Inr h' \<Longrightarrow> (\<And>a. m = Some a \<Longrightarrow> n \<le> a) \<Longrightarrow>
   loggers h' = loggers h \<and> length (maps h') = length (maps h) \<and>
   take n (maps h') = take n (maps h)"
proof (induction kvs arbitrary: h)
  case Nil
  then show ?case by simp
next
  case (Cons kv kvs)
  obtain k v where kv: "kv = (k, v)" by (cases kv)
  from Cons.prems(1) kv obtain a where m: "m = Some a"
    by (cases m) (auto simp: map_store_def)
  with Cons.prems(1) kv have rest: "store_all m kvs (map_put a k v h) = Inr h'"
    by (simp add: map_store_def)
  from Cons.IH [OF rest Cons.prems(2)] m Cons.prems(2) [OF m] show ?case
    by (simp add: take_maps_map_put)
qed

lemma store_all_nil: "store_all None kvs h = (if kvs = [] then Inr h else Inl NilMapAssignment)"
  by (cases kvs) (auto simp: map_store_def)

lemma store_all_some: "\<exists>h'. store_all (Some a) kvs h = Inr h'"
  by (induction kvs arbitrary: h) (auto simp: map_store_def)

lemma take_eq_nth: "take n xs = ys \<Longrightarrow> i < length ys \<Longrightarrow> xs ! i = ys ! i \<and> i < length xs"
  by (metis length_take min_less_iff_conj nth_take)

lemma extends_logger_at:
  "extends h h' \<Longrightarrow> logger_at h l = Some L \<Longrightarrow> logger_at h' l = Some L"
  unfolding extends_def logger_at_def
  by (metis option.distinct(1) option.inject take_eq_nth)

lemma extends_map_contents:
  "extends h h' \<Longrightarrow> allocated h m \<Longrightarrow> map_contents h' m = map_contents h m"
proof (cases m)
  case None
  then show ?thesis by (simp add: map_contents_def)
next
  case (Some a)
  assume "extends h h'" "allocated h m"
  with Some have a: "a < length (maps h)" and t: "take (length (maps h)) (maps h') = maps h"
    by (simp_all add: allocated_def extends_def)
  from take_eq_nth [OF t a] a Some show ?thesis
    by (simp add: map_contents_def)
qed

lemma extends_cloned: "extends h (cloned L h)"
  by (simp add: extends_def copyContext_take)

lemma length_maps_cloned: "length (maps h) \<le> length (maps (cloned L h))"
  by (simp add: copyContext_length)

lemma child_context:
  "context_map (child_of L h) =
     (if map_contents h (context_map L) = [] then None else Some (length (maps h)))"
  by (simp add: child_of_def copyContext_fst)

lemma WithTraceID_result:
  assumes at: "logger_at h l = Some L"
  shows "WithTraceID l t h =
     (Inr (length (loggers h)),
      (cloned L h)\<lparr>loggers := loggers h @ [(child_of L h)\<lparr>traceID := t\<rparr>]\<rparr>)"
  by (simp add: WithTraceID_def clone_eq [OF at])

lemma WithField_result:
  assumes at: "logger_at h l = Some L"
  shows "WithField l k v h =
     (if map_contents h (context_map L) = [] then (Inl NilMapAssignment, cloned L h)
      else (Inr (length (loggers h)), map_put (length (maps h)) k v (cloned L h)))"
  by (simp add: WithField_def clone_eq [OF at] child_context map_store_def)

lemma WithContext_result:
  assumes at: "logger_at h l = Some L"
  shows "WithContext l flds h =
     (case store_all (context_map (child_of L h)) flds (cloned L h) of
        Inl p \<Rightarrow> (Inl p, cloned L h)
      | Inr h2 \<Rightarrow> (Inr (length (loggers h)), h2))"
  by (simp add: WithContext_def clone_eq [OF at])

lemma contents_store_all:
  "store_all (Some a) kvs h = Inr h' \<Longrightarrow> a < length (maps h) \<Longrightarrow>
   map_contents h' (Some a) = assign_all kvs (map_contents h (Some a))"
proof (induction kvs arbitrary: h)
  case Nil
  then show ?case by simp
next
  case (Cons kv kvs)
  obtain k v where kv: "kv = (k, v)" by (cases kv)
  from Cons.prems(1) kv have rest: "store_all (Some a) kvs (map_put a k v h) = Inr h'"
    by (simp add: map_store_def)
  have "map_contents h' (Some a) = assign_all kvs (map_contents (map_put a k v h) (Some a))"
    by (rule Cons.IH [OF rest]) (simp add: Cons.prems(2))
  with kv Cons.prems(2) show ?case
    by (simp add: contents_map_put_same)
qed

lemma extends_refl: "extends h h"
  by (simp add: extends_def)

lemma extends_WithTraceID: "extends h (snd (WithTraceID l t h))"
proof (cases "logger_at h l")
  case None
  then show ?thesis by (simp add: WithTraceID_def clone_nil extends_refl)
next
  case (Some L)
  show ?thesis
    by (simp add: WithTraceID_result [OF Some] extends_def copyContext_take)
qed

lemma extends_WithField: "extends h (snd (WithField l k v h))"
proof (cases "logger_at h l")
  case None
  then show ?thesis by (simp add: WithField_def clone_nil extends_refl)
next
  case (Some L)
  have "take (length (maps h)) (maps (map_put (length (maps h)) k v (cloned L h))) =
        take (length (maps h)) (maps (cloned L h))"
    by (rule take_maps_map_put) simp
  then show ?thesis
    using extends_cloned [of h L]
    by (simp add: WithField_result [OF Some] extends_def)
qed

lemma extends_WithContext: "extends h (snd (WithContext l flds h))"
proof (cases "logger_at h l")
  case None
  then show ?thesis by (simp add: WithContext_def clone_nil extends_refl)
next
  case (Some L)
  show ?thesis
  proof (cases "store_all (context_map (child_of L h)) flds (cloned L h)")
    case (Inl p)
    then show ?thesis
      using extends_cloned [of h L] by (simp add: WithContext_result [OF Some])
  next
    case (Inr h2)
    have bound: "\<And>a. context_map (child_of L h) = Some a \<Longrightarrow> length (maps h) \<le> a"
      by (simp add: child_context split: if_splits)
    from take_store_all [OF Inr bound]
    have "loggers h2 = loggers (cloned L h)"
      and "take (length (maps h)) (maps h2) = take (length (maps h)) (maps (cloned L h))"
      by simp_all
    with Inr show ?thesis
      using extends_cloned [of h L] by (simp add: WithContext_result [OF Some] extends_def)
  qed
qed

lemma extends_derive: "extends h (snd (derive d l h))"
  by (cases d) (simp_all add: extends_WithContext extends_WithTraceID extends_WithField)

lemma contents_cloned_child:
  "map_contents (cloned L h) (context_map (child_of L h)) =
     assign_all (map_contents h (context_map L)) []"
proof -
  have "map_contents (cloned L h) (context_map (child_of L h)) =
        map_contents (snd (copyContext L h)) (fst (copyContext L h))"
    by (simp add: child_of_def map_contents_cong [of "cloned L h" "snd (copyContext L h)"])
  then show ?thesis by (simp add: copyContext_contents)
qed

lemma child_WithTraceID:
  assumes at: "logger_at h l = Some L" and d: "WithTraceID l t h = (Inr c, h')"
  shows "c = length (loggers h) \<and>
     logger_at h' c = Some ((child_of L h)\<lparr>traceID := t\<rparr>) \<and>
     map_contents h' (context_map (child_of L h)) =
       assign_all (map_contents h (context_map L)) []"
proof -
  from d have c: "c = length (loggers h)"
    and h': "h' = (cloned L h)\<lparr>loggers := loggers h @ [(child_of L h)\<lparr>traceID := t\<rparr>]\<rparr>"
    by (simp_all add: WithTraceID_result [OF at])
  have "maps h' = maps (cloned L h)" by (simp add: h')
  then have "map_contents h' (context_map (child_of L h)) =
      map_contents (cloned L h) (context_map (child_of L h))"
    by (rule map_contents_cong)
  with c h' show ?thesis
    by (simp add: logger_at_def contents_cloned_child)
qed

lemma child_WithField:
  assumes at: "logger_at h l = Some L" and d: "WithField l k v h = (Inr c, h')"
  shows "c = length (loggers h) \<and>
     logger_at h' c = Some (child_of L h) \<and>
     map_contents h' (context_map (child_of L h)) =
       map_assign k v (assign_all (map_contents h (context_map L)) [])"
proof -
  from d have ne: "map_contents h (context_map L) \<noteq> []"
    by (auto simp: WithField_result [OF at] split: if_splits)
  with d have c: "c = length (loggers h)"
    and h': "h' = map_put (length (maps h)) k v (cloned L h)"
    by (simp_all add: WithField_result [OF at])
  from ne have cm: "context_map (child_of L h) = Some (length (maps h))"
    by (simp add: child_context)
  from ne have lt: "length (maps h) < length (maps (cloned L h))"
    by (simp add: copyContext_length)
  have "map_contents h' (Some (length (maps h))) =
      map_assign k v (map_contents (cloned L h) (Some (length (maps h))))"
    unfolding h' by (rule contents_map_put_same [OF lt])
  also have "map_contents (cloned L h) (Some (length (maps h))) =
      assign_all (map_contents h (context_map L)) []"
    using contents_cloned_child [of L h] cm by simp
  finally have "map_contents h' (context_map (child_of L h)) =
       map_assign k v (assign_all (map_contents h (context_map L)) [])"
    by (simp add: cm)
  with c h' show ?thesis
    by (simp add: logger_at_def)
qed

lemma child_WithContext:
  assumes at: "logger_at h l = Some L" and d: "WithContext l flds h = (Inr c, h')"
  shows "c = length (loggers h) \<and>
     logger_at h' c = Some (child_of L h) \<and>
     map_contents h' (context_map (child_of L h)) =
       assign_all flds (assign_all (map_contents h (context_map L)) [])"
proof -
  from d have st: "store_all (context_map (child_of L h)) flds (cloned L h) = Inr h'"
    and c: "c = length (loggers h)"
    by (auto simp: WithContext_result [OF at] split: sum.splits)
  have bound: "\<And>a. context_map (child_of L h) = Some a \<Longrightarrow> length (maps h) \<le> a"
    by (simp add: child_context split: if_splits)
  from take_store_all [OF st bound] have lg: "loggers h' = loggers (cloned L h)"
    by simp
  have cont: "map_contents h' (context_map (child_of L h)) =
       assign_all flds (assign_all (map_contents h (context_map L)) [])"
  proof (cases "map_contents h (context_map L) = []")
    case True
    then have cm: "context_map (child_of L h) = None" by (simp add: child_context)
    with st have "flds = []" by (simp add: store_all_nil split: if_splits)
    with True cm show ?thesis by (simp add: map_contents_def)
  next
    case False
    then have cm: "context_map (child_of L h) = Some (length (maps h))"
      by (simp add: child_context)
    from False have lt: "length (maps h) < length (maps (cloned L h))"
      by (simp add: copyContext_length)
    from st cm have st': "store_all (Some (length (maps h))) flds (cloned L h) = Inr h'"
      by simp
    from contents_store_all [OF st' lt] contents_cloned_child [of L h] cm
    show ?thesis by simp
  qed
  from c lg cont show ?thesis
    by (simp add: logger_at_def)
qed

lemma child_derive:
  assumes at: "logger_at h l = Some L" and d: "derive d l h = (Inr c, h')"
  shows "c = length (loggers h) \<and>
     logger_at h' c = Some ((child_of L h)\<lparr>traceID := derived_traceID d (traceID L)\<rparr>) \<and>
     map_contents h' (context_map (child_of L h)) =
       derived_context d (assign_all (map_contents h (context_map L)) [])"
proof (cases d)
  case (ByWithContext flds)
  with d have "WithContext l flds h = (Inr c, h')" by simp
  from child_WithContext [OF at this] ByWithContext show ?thesis
    by (auto simp: child_of_def)
next
  case (ByWithTraceID t)
  with d have "WithTraceID l t h = (Inr c, h')" by simp
  from child_WithTraceID [OF at this] ByWithTraceID show ?thesis by auto
next
  case (ByWithField k v)
  with d have "WithField l k v h = (Inr c, h')" by simp
  from child_WithField [OF at this] ByWithField show ?thesis
    by (auto simp: child_of_def)
qed

section \<open>Derived loggers: the parent is not changed\<close>

lemma log_p6_result:
  assumes at: "logger_at h l = Some L"
  shows "log_p6 E l S msg args (h, w) =
     (if \<not> shouldLog L S then (Returned, h, w)
      else (case marshal_LogEntry_p6 (entry_p6 E L S msg args (map_contents h (context_map L))) of
              Inl err \<Rightarrow> (Returned, snd (copyContext L h),
                          w\<lparr>stderr := stderr w @ [''Failed to marshal log entry'']\<rparr>)
            | Inr line \<Rightarrow> (if S = LevelFatal then Exited 1 else Returned,
                          snd (copyContext L h), write_all E (writers L) line w)))"
proof -
  obtain c h1 where ch: "copyContext L h = (c, h1)" by (cases "copyContext L h")
  have "map_contents h1 c = assign_all (map_contents h (context_map L)) []"
    using copyContext_contents [of L h] ch by simp
  then show ?thesis
    unfolding log_p6_def Let_def prod.case at option.case ch entry_p6_def
    by (simp split: sum.splits)
qed

lemma log_p6_nil:
  "logger_at h l = None \<Longrightarrow> log_p6 E l S msg args (h, w) = (Panicked NilPointerDereference, h, w)"
  by (simp add: log_p6_def)

lemma log_p6_depends:
  assumes "logger_at h l = logger_at h' l"
    and "\<And>L. logger_at h l = Some L \<Longrightarrow> map_contents h' (context_map L) = map_contents h (context_map L)"
  shows "fst (log_p6 E l S msg args (h', w)) = fst (log_p6 E l S msg args (h, w)) \<and>
     snd (snd (log_p6 E l S msg args (h', w))) = snd (snd (log_p6 E l S msg args (h, w)))"
proof (cases "logger_at h l")
  case None
  with assms(1) show ?thesis by (simp add: log_p6_nil)
next
  case (Some L)
  with assms(1) have at': "logger_at h' l = Some L" by simp
  from assms(2) [OF Some] show ?thesis
    by (simp add: log_p6_result [OF Some] log_p6_result [OF at'] split: sum.splits)
qed

text \<open>
  C2. Deriving a child logger with \<open>WithContext\<close>, \<open>WithField\<close> or \<open>WithTraceID\<close> leaves
  the parent as it was, whether the derivation returns a child or panics: the parent struct
  is unchanged at its address, its context map has the same contents, and so has everything
  else the store held. A child that is returned is a new struct at an address the store
  did not hold; it has the parent's writers, service and minimum level; its context map is
  nil or a map the store did not hold before, whose contents are the copied parent context
  with the derivation's fields assigned. An entry logged on the parent after the derivation
  has the same outcome and hands the same lines (hence the same context) to the same writers
  as one logged before it.
\<close>

theorem derivation_leaves_parent_unchanged:
  assumes at: "logger_at h l = Some L"
    and ok: "allocated h (context_map L)"
    and d: "derive d l h = (r, h')"
  shows "logger_at h' l = Some L \<and>
     map_contents h' (context_map L) = map_contents h (context_map L) \<and>
     extends h h' \<and>
     (case r of
        Inl p \<Rightarrow> True
      | Inr c \<Rightarrow>
          c \<noteq> l \<and> logger_at h c = None \<and>
          (\<exists>C. logger_at h' c = Some C \<and>
             writers C = writers L \<and> service C = service L \<and> minLevel C = minLevel L \<and>
             traceID C = derived_traceID d (traceID L) \<and>
             (case context_map C of None \<Rightarrow> True | Some a \<Rightarrow> \<not> a < length (maps h)) \<and>
             map_contents h' (context_map C) =
               derived_context d (assign_all (map_contents h (context_map L)) []))) \<and>
     (\<forall>E level msg args w.
        fst (log_p6 E l level msg args (h', w)) = fst (log_p6 E l level msg args (h, w)) \<and>
        snd (snd (log_p6 E l level msg args (h', w))) =
          snd (snd (log_p6 E l level msg args (h, w))))"
proof -
  have ext: "extends h h'" using extends_derive [of h d l] d by simp
  have parent: "logger_at h' l = Some L" by (rule extends_logger_at [OF ext at])
  have frame: "map_contents h' (context_map L) = map_contents h (context_map L)"
    by (rule extends_map_contents [OF ext ok])
  have child: "case r of
        Inl p \<Rightarrow> True
      | Inr c \<Rightarrow>
          c \<noteq> l \<and> logger_at h c = None \<and>
          (\<exists>C. logger_at h' c = Some C \<and>
             writers C = writers L \<and> service C = service L \<and> minLevel C = minLevel L \<and>
             traceID C = derived_traceID d (traceID L) \<and>
             (case context_map C of None \<Rightarrow> True | Some a \<Rightarrow> \<not> a < length (maps h)) \<and>
             map_contents h' (context_map C) =
               derived_context d (assign_all (map_contents h (context_map L)) []))"
  proof (cases r)
    case (Inl p)
    then show ?thesis by simp
  next
    case (Inr c)
    with d have d': "derive d l h = (Inr c, h')" by simp
    let ?C = "(child_of L h)\<lparr>traceID := derived_traceID d (traceID L)\<rparr>"
    from child_derive [OF at d'] have c: "c = length (loggers h)"
      and C: "logger_at h' c = Some ?C"
      and cont: "map_contents h' (context_map (child_of L h)) =
         derived_context d (assign_all (map_contents h (context_map L)) [])"
      by blast+
    from at have "l < length (loggers h)"
      by (simp add: logger_at_def split: if_splits)
    with c have fresh: "c \<noteq> l" "logger_at h c = None"
      by (simp_all add: logger_at_def)
    have own: "case context_map ?C of None \<Rightarrow> True | Some a \<Rightarrow> \<not> a < length (maps h)"
      by (simp add: child_context)
    have fields: "writers ?C = writers L" "service ?C = service L" "minLevel ?C = minLevel L"
      "traceID ?C = derived_traceID d (traceID L)"
      by (simp_all add: child_of_def)
    have cont': "map_contents h' (context_map ?C) =
         derived_context d (assign_all (map_contents h (context_map L)) [])"
      using cont by simp
    from C fields own cont' have "\<exists>C. logger_at h' c = Some C \<and>
             writers C = writers L \<and> service C = service L \<and> minLevel C = minLevel L \<and>
             traceID C = derived_traceID d (traceID L) \<and>
             (case context_map C of None \<Rightarrow> True | Some a \<Rightarrow> \<not> a < length (maps h)) \<and>
             map_contents h' (context_map C) =
               derived_context d (assign_all (map_contents h (context_map L)) [])"
      by blast
    with fresh Inr show ?thesis by simp
  qed
  have logged: "\<forall>E level msg args w.
        fst (log_p6 E l level msg args (h', w)) = fst (log_p6 E l level msg args (h, w)) \<and>
        snd (snd (log_p6 E l level msg args (h', w))) =
          snd (snd (log_p6 E l level msg args (h, w)))"
  proof (intro allI)
    fix E level msg args w
    have same: "logger_at h l = logger_at h' l" using at parent by simp
    have cont: "\<And>L'. logger_at h l = Some L' \<Longrightarrow>
        map_contents h' (context_map L') = map_contents h (context_map L')"
      using at frame by simp
    show "fst (log_p6 E l level msg args (h', w)) = fst (log_p6 E l level msg args (h, w)) \<and>
        snd (snd (log_p6 E l level msg args (h', w))) =
          snd (snd (log_p6 E l level msg args (h, w)))"
      by (rule log_p6_depends [OF same cont])
  qed
  from parent frame ext child logged show ?thesis by blast
qed

section \<open>Derived loggers: a concrete parent\<close>

lemma demo_at: "logger_at demo_heap 0 = Some demo_logger"
  by (simp add: logger_at_def demo_heap_def)

lemma demo_alloc: "allocated demo_heap (context_map demo_logger)"
  by (simp add: allocated_def demo_heap_def demo_logger_def)

lemma demo_contents: "map_contents demo_heap (context_map demo_logger) = [(''user_id'', AnyString ''12345'')]"
  by (simp add: map_contents_def demo_heap_def demo_logger_def)

lemma demo_derive: "fst (derive (ByWithField ''order_id'' (AnyString ''ORDER-001'')) 0 demo_heap) = Inr 1"
  by (simp add: WithField_result [OF demo_at] demo_contents) (simp add: demo_heap_def)

text \<open>The parent with one context field, before and after \<open>WithField\<close>.\<close>

theorem derivation_leaves_parent_unchanged_witness:
  "logger_at demo_heap 0 = Some demo_logger \<and>
   allocated demo_heap (context_map demo_logger) \<and>
   fst (derive (ByWithField ''order_id'' (AnyString ''ORDER-001'')) 0 demo_heap) = Inr 1 \<and>
   logger_at (snd (derive (ByWithField ''order_id'' (AnyString ''ORDER-001'')) 0 demo_heap)) 0 =
     Some demo_logger \<and>
   map_contents (snd (derive (ByWithField ''order_id'' (AnyString ''ORDER-001'')) 0 demo_heap))
     (context_map demo_logger) = [(''user_id'', AnyString ''12345'')] \<and>
   (\<exists>C. logger_at (snd (derive (ByWithField ''order_id'' (AnyString ''ORDER-001'')) 0 demo_heap)) 1 = Some C \<and>
      writers C = [Stdout] \<and>
      map_contents (snd (derive (ByWithField ''order_id'' (AnyString ''ORDER-001'')) 0 demo_heap))
        (context_map C) = [(''user_id'', AnyString ''12345''), (''order_id'', AnyString ''ORDER-001'')])"
proof -
  let ?d = "ByWithField ''order_id'' (AnyString ''ORDER-001'')"
  have run: "derive ?d 0 demo_heap = (Inr 1, snd (derive ?d 0 demo_heap))"
    using demo_derive by (simp add: prod_eq_iff)
  from derivation_leaves_parent_unchanged [OF demo_at demo_alloc run]
  have "logger_at (snd (derive ?d 0 demo_heap)) 0 = Some demo_logger"
    and "map_contents (snd (derive ?d 0 demo_heap)) (context_map demo_logger) =
       map_contents demo_heap (context_map demo_logger)"
    and "\<exists>C. logger_at (snd (derive ?d 0 demo_heap)) 1 = Some C \<and>
      writers C = writers demo_logger \<and>
      map_contents (snd (derive ?d 0 demo_heap)) (context_map C) =
        derived_context ?d (assign_all (map_contents demo_heap (context_map demo_logger)) [])"
    by auto
  then show ?thesis
    using demo_at demo_alloc demo_derive
    by (simp add: demo_contents) (simp add: demo_logger_def)
qed

section \<open>Derivation from an empty context\<close>

lemma NewJSONLogger_p6_fresh:
  assumes "NewJSONLogger_p6 E cfg h0 = (Inr n, h1)"
  shows "\<exists>L. logger_at h1 n = Some L \<and> map_contents h1 (context_map L) = []"
proof -
  from assms obtain ws c where ws: "open_writers E cfg = Inr ws" and c: "cfg = Some c"
    by (auto simp: NewJSONLogger_p6_def split: sum.splits option.splits)
  let ?L = "\<lparr>writers = ws, service = ServiceName c, minLevel = MinLevel c,
      context_map = Some (length (maps h0)), traceID = []\<rparr>"
  from assms ws c have n: "n = length (loggers h0)"
    and h1: "h1 = h0\<lparr>maps := maps h0 @ [[]], loggers := loggers h0 @ [?L]\<rparr>"
    by (simp_all add: NewJSONLogger_p6_def make_map_def new_logger_def Let_def)
  have "logger_at h1 n = Some ?L" by (simp add: n h1 logger_at_def)
  moreover have "map_contents h1 (context_map ?L) = []" by (simp add: h1 map_contents_def)
  ultimately show ?thesis by blast
qed

lemma WithContext_fst:
  assumes at: "logger_at h l = Some L"
  shows "fst (WithContext l flds h) =
     (if map_contents h (context_map L) = [] \<and> flds \<noteq> [] then Inl NilMapAssignment
      else Inr (length (loggers h)))"
proof (cases "map_contents h (context_map L) = []")
  case True
  then have "context_map (child_of L h) = None" by (simp add: child_context)
  then show ?thesis using True
    by (simp add: WithContext_result [OF at] store_all_nil)
next
  case False
  then have cm: "context_map (child_of L h) = Some (length (maps h))" by (simp add: child_context)
  obtain h2 where "store_all (Some (length (maps h))) flds (cloned L h) = Inr h2"
    using store_all_some by blast
  with cm False show ?thesis
    by (simp add: WithContext_result [OF at])
qed

text \<open>
  C10. Deriving from a logger whose context map holds no field is not total. For such a
  logger \<open>copyContext\<close> returns nil, the struct that \<open>clone\<close> returns has a nil context,
  and the field assignment that follows panics with a write to a nil map: \<open>WithField\<close> for
  every key and value, \<open>WithContext\<close> for every field map with at least one field (with no
  field there is no assignment, and \<open>WithContext\<close> returns). A logger fresh from
  \<open>NewJSONLogger\<close> is such a logger. On a logger that holds at least one context field both
  return a child.
\<close>

theorem derivation_from_empty_context_panics:
  assumes at: "logger_at h l = Some L"
  shows "(map_contents h (context_map L) = [] \<longrightarrow>
       fst (copyContext L h) = None \<and>
       (\<exists>h1 C. clone l h = (Inr (length (loggers h)), h1) \<and>
          logger_at h1 (length (loggers h)) = Some C \<and> context_map C = None) \<and>
       fst (WithField l k v h) = Inl NilMapAssignment \<and>
       fst (WithContext l ((k, v) # flds) h) = Inl NilMapAssignment) \<and>
     (map_contents h (context_map L) \<noteq> [] \<longrightarrow>
       fst (WithField l k v h) = Inr (length (loggers h)) \<and>
       fst (WithContext l ((k, v) # flds) h) = Inr (length (loggers h))) \<and>
     (\<forall>E cfg h0. NewJSONLogger_p6 E cfg h0 = (Inr l, h) \<longrightarrow>
       fst (WithField l k v h) = Inl NilMapAssignment \<and>
       fst (WithContext l ((k, v) # flds) h) = Inl NilMapAssignment) \<and>
     fst (WithContext l [] h) = Inr (length (loggers h))"
proof -
  have wc0: "fst (WithContext l [] h) = Inr (length (loggers h))"
    by (simp add: WithContext_fst [OF at])
  have wf: "fst (WithField l k v h) =
      (if map_contents h (context_map L) = [] then Inl NilMapAssignment
       else Inr (length (loggers h)))"
    by (simp add: WithField_result [OF at])
  have wc: "fst (WithContext l ((k, v) # flds) h) =
      (if map_contents h (context_map L) = [] then Inl NilMapAssignment
       else Inr (length (loggers h)))"
    by (simp add: WithContext_fst [OF at])
  have cl: "map_contents h (context_map L) = [] \<longrightarrow>
       fst (copyContext L h) = None \<and>
       (\<exists>h1 C. clone l h = (Inr (length (loggers h)), h1) \<and>
          logger_at h1 (length (loggers h)) = Some C \<and> context_map C = None)"
  proof
    assume e: "map_contents h (context_map L) = []"
    have "clone l h = (Inr (length (loggers h)), cloned L h)" by (rule clone_eq [OF at])
    moreover have "logger_at (cloned L h) (length (loggers h)) = Some (child_of L h)" by simp
    moreover have "context_map (child_of L h) = None" using e by (simp add: child_context)
    ultimately show "fst (copyContext L h) = None \<and>
       (\<exists>h1 C. clone l h = (Inr (length (loggers h)), h1) \<and>
          logger_at h1 (length (loggers h)) = Some C \<and> context_map C = None)"
      using e by (auto simp: copyContext_fst)
  qed
  have fresh: "\<forall>E cfg h0. NewJSONLogger_p6 E cfg h0 = (Inr l, h) \<longrightarrow>
       map_contents h (context_map L) = []"
  proof (intro allI impI)
    fix E cfg h0
    assume "NewJSONLogger_p6 E cfg h0 = (Inr l, h)"
    from NewJSONLogger_p6_fresh [OF this] at show "map_contents h (context_map L) = []"
      by auto
  qed
  from wf wc cl fresh wc0 show ?thesis by auto
qed

lemma fresh_new:
  "NewJSONLogger_p6 demo_env (Some (DefaultConfig ''api'')) empty_heap = (Inr 0, fresh_heap)"
  by (simp add: fresh_heap_def NewJSONLogger_p6_def open_writers_def Config_Validate_def
      DefaultConfig_def demo_env_def empty_heap_def make_map_def new_logger_def Let_def)

lemma fresh_heap_eq: "fresh_heap = \<lparr>maps = [[]], loggers = [fresh_logger]\<rparr>"
  by (simp add: fresh_heap_def NewJSONLogger_p6_def open_writers_def Config_Validate_def
      DefaultConfig_def demo_env_def empty_heap_def make_map_def new_logger_def Let_def
      fresh_logger_def)

lemma fresh_at: "logger_at fresh_heap 0 = Some fresh_logger"
  by (simp add: fresh_heap_eq logger_at_def)

lemma fresh_contents: "map_contents fresh_heap (context_map fresh_logger) = []"
  by (simp add: fresh_heap_eq fresh_logger_def map_contents_def)

text \<open>The freshly constructed logger panics; the logger with one field derives a child.\<close>

theorem derivation_from_empty_context_panics_witness:
  "logger_at fresh_heap 0 = Some fresh_logger \<and>
   map_contents fresh_heap (context_map fresh_logger) = [] \<and>
   NewJSONLogger_p6 demo_env (Some (DefaultConfig ''api'')) empty_heap = (Inr 0, fresh_heap) \<and>
   fst (WithField 0 ''goroutine_id'' (AnyInt 7) fresh_heap) = Inl NilMapAssignment \<and>
   fst (WithContext 0 [(''user_id'', AnyString ''12345'')] fresh_heap) = Inl NilMapAssignment \<and>
   logger_at demo_heap 0 = Some demo_logger \<and>
   map_contents demo_heap (context_map demo_logger) \<noteq> [] \<and>
   fst (WithField 0 ''goroutine_id'' (AnyInt 7) demo_heap) = Inr 1 \<and>
   fst (WithContext 0 [(''user_id'', AnyString ''12345'')] demo_heap) = Inr 1"
proof -
  have ne: "map_contents demo_heap (context_map demo_logger) \<noteq> []"
    by (simp add: demo_contents)
  have len: "length (loggers demo_heap) = 1" by (simp add: demo_heap_def)
  from derivation_from_empty_context_panics [OF fresh_at, of "''goroutine_id''" "AnyInt 7" "[]"]
    fresh_contents
  have a: "fst (WithField 0 ''goroutine_id'' (AnyInt 7) fresh_heap) = Inl NilMapAssignment"
    by blast
  from derivation_from_empty_context_panics [OF fresh_at, of "''user_id''" "AnyString ''12345''" "[]"]
    fresh_contents
  have b: "fst (WithContext 0 [(''user_id'', AnyString ''12345'')] fresh_heap) = Inl NilMapAssignment"
    by blast
  from derivation_from_empty_context_panics [OF demo_at, of "''goroutine_id''" "AnyInt 7" "[]"]
    ne len
  have c: "fst (WithField 0 ''goroutine_id'' (AnyInt 7) demo_heap) = Inr 1"
    by simp
  from derivation_from_empty_context_panics [OF demo_at, of "''user_id''" "AnyString ''12345''" "[]"]
    ne len
  have d: "fst (WithContext 0 [(''user_id'', AnyString ''12345'')] demo_heap) = Inr 1"
    by simp
  from a b c d fresh_at fresh_contents fresh_new demo_at ne show ?thesis by blast
qed

section \<open>Fatal and the other levels\<close>

lemma levels_at_le: "levels_at k \<le> 4"
  by (simp add: levels_at_def levels_def)

lemma Fatal_differs:
  "LevelDebug \<noteq> LevelFatal" "LevelInfo \<noteq> LevelFatal" "LevelWarn \<noteq> LevelFatal"
  "LevelError \<noteq> LevelFatal"
  by (simp_all add: LevelDebug_def LevelInfo_def LevelWarn_def LevelError_def LevelFatal_def)

lemma shouldLog_Fatal: "shouldLog l LevelFatal"
  by (simp add: shouldLog_def levels_at_values levels_at_le)

lemma log_fst:
  "fst (log E l ctx S msg args w) =
     (if S = LevelFatal then Exited 1 else Returned)"
proof -
  obtain line where res: "log E l ctx S msg args w =
     (if levels_at S < levels_at (minLevel l) then (Returned, w)
      else (if S = LevelFatal then Exited 1 else Returned, write_all E (writers l) line w))"
    using log_result by blast
  have "S = LevelFatal \<Longrightarrow> \<not> levels_at S < levels_at (minLevel l)"
    using levels_at_le [of "minLevel l"] by (simp add: levels_at_values)
  then show ?thesis unfolding res by auto
qed

lemma log_Fatal_writes:
  "\<exists>line. new_writes w (snd (log E l ctx LevelFatal msg args w)) =
     map (\<lambda>x. (x, line)) (writers l)"
proof -
  obtain line where res: "log E l ctx LevelFatal msg args w =
     (if levels_at LevelFatal < levels_at (minLevel l) then (Returned, w)
      else (if LevelFatal = LevelFatal then Exited 1 else Returned,
            write_all E (writers l) line w))"
    using log_result by blast
  have "\<not> levels_at LevelFatal < levels_at (minLevel l)"
    using levels_at_le [of "minLevel l"] by (simp add: levels_at_values)
  with res have "new_writes w (snd (log E l ctx LevelFatal msg args w)) =
     map (\<lambda>x. (x, line)) (writers l)"
    by (simp add: new_writes_write_all)
  then show ?thesis ..
qed

lemma marshal_p6_fails_iff:
  "(\<exists>e. marshal_LogEntry_p6 (entry_p6 E L S msg args cs) = Inl e) \<longleftrightarrow>
   (\<exists>e. marshal_members (assign_all cs []) = Inl e)"
  by (auto simp: marshal_LogEntry_p6_def entry_p6_def split: sum.splits)

lemma log_p6_fst:
  assumes at: "logger_at h a = Some L"
  shows "fst (log_p6 E a S msg args (h, w)) =
     (if S = LevelFatal \<and> shouldLog L S \<and>
         (\<exists>ms. marshal_members (assign_all (map_contents h (context_map L)) []) = Inr ms)
      then Exited 1 else Returned)"
proof (cases "marshal_LogEntry_p6 (entry_p6 E L S msg args (map_contents h (context_map L)))")
  case (Inl e)
  then have "\<exists>e. marshal_members (assign_all (map_contents h (context_map L)) []) = Inl e"
    using marshal_p6_fails_iff by blast
  then have "\<not> (\<exists>ms. marshal_members (assign_all (map_contents h (context_map L)) []) = Inr ms)"
    by auto
  with Inl show ?thesis by (auto simp: log_p6_result [OF at])
next
  case (Inr line)
  then have "\<not> (\<exists>e. marshal_members (assign_all (map_contents h (context_map L)) []) = Inl e)"
    using marshal_p6_fails_iff [of E L S msg args "map_contents h (context_map L)"] by simp
  then have "\<exists>ms. marshal_members (assign_all (map_contents h (context_map L)) []) = Inr ms"
    by (cases "marshal_members (assign_all (map_contents h (context_map L)) [])") auto
  with Inr show ?thesis by (auto simp: log_p6_result [OF at])
qed

lemma log_p6_exit_writes:
  assumes at: "logger_at h a = Some L"
    and ex: "fst (log_p6 E a S msg args (h, w)) = Exited n"
  shows "\<exists>line. new_writes w (snd (snd (log_p6 E a S msg args (h, w)))) =
     map (\<lambda>x. (x, line)) (writers L)"
proof (cases "marshal_LogEntry_p6 (entry_p6 E L S msg args (map_contents h (context_map L)))")
  case (Inl e)
  with ex show ?thesis by (simp add: log_p6_result [OF at] split: if_splits)
next
  case (Inr line)
  with ex have "new_writes w (snd (snd (log_p6 E a S msg args (h, w)))) =
     map (\<lambda>x. (x, line)) (writers L)"
    by (simp add: log_p6_result [OF at] new_writes_write_all split: if_splits)
  then show ?thesis ..
qed

text \<open>
  C6. In both variants of the logger, for every logger, minimum level, context, message and
  arguments: \<open>Debug\<close>, \<open>Info\<close>, \<open>Warn\<close> and \<open>Error\<close> return to the caller; a call that ends the
  process is a call at FATAL, it ends it with status 1, and by then the entry has been handed
  to every writer. \<open>Fatal\<close> of pkg/logger/logger.go always ends the process. \<open>Fatal\<close> of
  part_006 ends the process whenever the logger's context can be encoded as JSON (when it
  cannot, \<open>log\<close> reports the failure and returns before the exit).
\<close>

theorem fatal_is_the_only_exit:
  assumes at: "logger_at h a = Some L"
  shows "fst (Debug E l ctx msg args w) = Returned \<and>
     fst (Info E l ctx msg args w) = Returned \<and>
     fst (Warn E l ctx msg args w) = Returned \<and>
     fst (Error E l ctx msg args w) = Returned \<and>
     fst (Fatal E l ctx msg args w) = Exited 1 \<and>
     (\<exists>line. new_writes w (snd (Fatal E l ctx msg args w)) = map (\<lambda>x. (x, line)) (writers l)) \<and>
     fst (Debug_p6 E a msg args (h, w)) = Returned \<and>
     fst (Info_p6 E a msg args (h, w)) = Returned \<and>
     fst (Warn_p6 E a msg args (h, w)) = Returned \<and>
     fst (Error_p6 E a msg args (h, w)) = Returned \<and>
     fst (Fatal_p6 E a msg args (h, w)) =
       (case marshal_members (assign_all (map_contents h (context_map L)) []) of
          Inl e \<Rightarrow> Returned | Inr ms \<Rightarrow> Exited 1) \<and>
     (\<forall>level n. fst (log_p6 E a level msg args (h, w)) = Exited n \<longrightarrow>
        level = LevelFatal \<and> n = 1 \<and>
        (\<exists>line. new_writes w (snd (snd (log_p6 E a level msg args (h, w)))) =
           map (\<lambda>x. (x, line)) (writers L)))"
proof -
  have ctx: "fst (Debug E l ctx msg args w) = Returned \<and>
     fst (Info E l ctx msg args w) = Returned \<and>
     fst (Warn E l ctx msg args w) = Returned \<and>
     fst (Error E l ctx msg args w) = Returned \<and>
     fst (Fatal E l ctx msg args w) = Exited 1"
    by (simp add: Debug_def Info_def Warn_def Error_def Fatal_def log_fst Fatal_differs)
  have fw: "\<exists>line. new_writes w (snd (Fatal E l ctx msg args w)) =
      map (\<lambda>x. (x, line)) (writers l)"
    unfolding Fatal_def by (rule log_Fatal_writes)
  have p6: "fst (Debug_p6 E a msg args (h, w)) = Returned \<and>
     fst (Info_p6 E a msg args (h, w)) = Returned \<and>
     fst (Warn_p6 E a msg args (h, w)) = Returned \<and>
     fst (Error_p6 E a msg args (h, w)) = Returned"
    by (simp add: Debug_p6_def Info_p6_def Warn_p6_def Error_p6_def log_p6_fst [OF at]
        Fatal_differs)
  have f6: "fst (Fatal_p6 E a msg args (h, w)) =
       (case marshal_members (assign_all (map_contents h (context_map L)) []) of
          Inl e \<Rightarrow> Returned | Inr ms \<Rightarrow> Exited 1)"
    by (simp add: Fatal_p6_def log_p6_fst [OF at] shouldLog_Fatal split: sum.splits)
  have only: "\<forall>level n. fst (log_p6 E a level msg args (h, w)) = Exited n \<longrightarrow>
        level = LevelFatal \<and> n = 1 \<and>
        (\<exists>line. new_writes w (snd (snd (log_p6 E a level msg args (h, w)))) =
           map (\<lambda>x. (x, line)) (writers L))"
  proof (intro allI impI)
    fix level n
    assume ex: "fst (log_p6 E a level msg args (h, w)) = Exited n"
    then have "level = LevelFatal \<and> n = 1"
      by (simp add: log_p6_fst [OF at] split: if_splits)
    with log_p6_exit_writes [OF at ex]
    show "level = LevelFatal \<and> n = 1 \<and>
        (\<exists>line. new_writes w (snd (snd (log_p6 E a level msg args (h, w)))) =
           map (\<lambda>x. (x, line)) (writers L))"
      by blast
  qed
  from ctx fw p6 f6 only show ?thesis by blast
qed

text \<open>\<open>Fatal\<close> and \<open>Error\<close> on concrete loggers of both variants.\<close>

theorem fatal_is_the_only_exit_witness:
  "logger_at demo_heap 0 = Some demo_logger \<and>
   fst (Fatal_p6 demo_env 0 ''cannot start'' [] (demo_heap, empty_world)) = Exited 1 \<and>
   fst (log_p6 demo_env 0 LevelFatal ''cannot start'' [] (demo_heap, empty_world)) = Exited 1 \<and>
   (\<exists>line. new_writes empty_world
       (snd (snd (log_p6 demo_env 0 LevelFatal ''cannot start'' [] (demo_heap, empty_world)))) =
      [(Stdout, line)]) \<and>
   fst (Error_p6 demo_env 0 ''cannot start'' [] (demo_heap, empty_world)) = Returned \<and>
   fst (Fatal demo_env \<lparr>writers = [Stdout], service = ''api'', minLevel = LevelFatal\<rparr> None
       ''cannot start'' [] empty_world) = Exited 1 \<and>
   fst (Error demo_env \<lparr>writers = [Stdout], service = ''api'', minLevel = LevelDebug\<rparr> None
       ''cannot start'' [] empty_world) = Returned"
proof -
  note inst1 = fatal_is_the_only_exit [OF demo_at, of demo_env
      "\<lparr>writers = [Stdout], service = ''api'', minLevel = LevelFatal\<rparr>" None
      "''cannot start''" "[]" empty_world]
  note inst2 = fatal_is_the_only_exit [OF demo_at, of demo_env
      "\<lparr>writers = [Stdout], service = ''api'', minLevel = LevelDebug\<rparr>" None
      "''cannot start''" "[]" empty_world]
  have m: "marshal_members (assign_all (map_contents demo_heap (context_map demo_logger)) []) =
      Inr [(''user_id'', JString ''12345'')]"
    by (simp add: demo_contents)
  from inst1 m have f: "fst (Fatal_p6 demo_env 0 ''cannot start'' [] (demo_heap, empty_world)) = Exited 1"
    by simp
  then have l: "fst (log_p6 demo_env 0 LevelFatal ''cannot start'' [] (demo_heap, empty_world)) = Exited 1"
    by (simp add: Fatal_p6_def)
  from inst1 l have "\<exists>line. new_writes empty_world
       (snd (snd (log_p6 demo_env 0 LevelFatal ''cannot start'' [] (demo_heap, empty_world)))) =
      map (\<lambda>x. (x, line)) (writers demo_logger)"
    by blast
  then have wr: "\<exists>line. new_writes empty_world
       (snd (snd (log_p6 demo_env 0 LevelFatal ''cannot start'' [] (demo_heap, empty_world)))) =
      [(Stdout, line)]"
    by (simp add: demo_logger_def)
  from inst1 have e: "fst (Error_p6 demo_env 0 ''cannot start'' [] (demo_heap, empty_world)) = Returned"
    by blast
  from inst1 have cf: "fst (Fatal demo_env \<lparr>writers = [Stdout], service = ''api'', minLevel = LevelFatal\<rparr> None
       ''cannot start'' [] empty_world) = Exited 1"
    by blast
  from inst2 have ce: "fst (Error demo_env \<lparr>writers = [Stdout], service = ''api'', minLevel = LevelDebug\<rparr> None
       ''cannot start'' [] empty_world) = Returned"
    by blast
  from demo_at f l wr e cf ce show ?thesis by blast
qed

section \<open>The register endpoint\<close>


lemma app_dispatch:
  "ServeHTTP app \<lparr>Method = ''POST'', Path = ''/auth/register'', Query = q\<rparr> w =
   registerHandler \<lparr>Method = ''POST'', Path = ''/register'', Query = q\<rparr> w"
  by (simp add: app_def Router_def Mount_def Get_def Post_def Method_func_def NewRouter_def
      under_prefix_def)

lemma register_validation:
  "Query_Get q ''error'' = ''validation'' \<Longrightarrow>
   registerHandler \<lparr>Method = m, Path = p, Query = q\<rparr> new_ResponseWriter =
     \<lparr>Header = [(''Content-Type'', ''application/json'')], Status = Some 422,
      Body = [JSONLine (JObject
        [(''success'', JBool False), (''message'', JString ''Validation failed''),
         (''data'', JObject [(''email'', JString ''Email is required''),
            (''password'', JString ''Password must be at least 8 characters'')]),
         (''error'', JString ''Validation failed'')])]\<rparr>"
  by (simp add: registerHandler_def SendUnprocessableEntity_def SendJSON_def marshal_Response_def
      Header_Set_def WriteHeader_def Write_def new_ResponseWriter_def
      StatusUnprocessableEntity_def Let_def)

lemma register_created:
  "Query_Get q ''error'' \<noteq> ''validation'' \<Longrightarrow>
   registerHandler \<lparr>Method = m, Path = p, Query = q\<rparr> new_ResponseWriter =
     \<lparr>Header = [(''Content-Type'', ''application/json'')], Status = Some 201,
      Body = [JSONLine (JObject
        [(''success'', JBool True), (''message'', JString ''User registered successfully''),
         (''data'', JObject [(''user_id'', JNumber 124), (''email'', JString ''newuser@example.com''),
            (''message'', JString ''Please verify your email'')])])]\<rparr>"
  by (simp add: registerHandler_def SendCreated_def SendJSON_def marshal_Response_def
      Header_Set_def WriteHeader_def Write_def new_ResponseWriter_def
      StatusCreated_def Let_def)

text \<open>
  C9. A POST to \<open>/auth/register\<close> on the assembled router (\<open>app\<close>) whose query gives
  \<open>error=validation\<close> (as \<open>r.URL.Query().Get("error")\<close> reads it: the first value of the
  key) is answered with status 422 and a JSON body whose \<open>success\<close> is false and whose
  \<open>data\<close> is an object with exactly the keys \<open>email\<close> and \<open>password\<close>; every other POST
  to \<open>/auth/register\<close> is answered with status 201 and \<open>success\<close> true.
\<close>

theorem register_endpoint:
  "(let w = ServeHTTP app \<lparr>Method = ''POST'', Path = ''/auth/register'', Query = q\<rparr> new_ResponseWriter
    in if Query_Get q ''error'' = ''validation''
       then Status w = Some 422 \<and>
            (\<exists>j d. Body w = [JSONLine j] \<and>
               json_member j ''success'' = Some (JBool False) \<and>
               json_member j ''data'' = Some (JObject d) \<and>
               map fst d = [''email'', ''password''])
       else Status w = Some 201 \<and>
            (\<exists>j. Body w = [JSONLine j] \<and> json_member j ''success'' = Some (JBool True))) \<and>
   Query_Get [(''error'', ''validation'')] ''error'' = ''validation''"
proof (cases "Query_Get q ''error'' = ''validation''")
  case True
  then show ?thesis
    by (simp add: app_dispatch register_validation Query_Get_def)
next
  case False
  then show ?thesis
    by (simp add: app_dispatch register_created Query_Get_def)
qed

end
